theory Spec2Isabelle
  imports Complex_Main "HOL-Library.Char_ord" "HOL-Library.List_Lexorder"
    "HOL-Library.Product_Lexorder"
begin

section \<open>Multipart polygon resolution (polygon\_processors/multipart\_relabeller.py)\<close>

subsection \<open>Data model\<close>

text \<open>
  The geometry library (shapely) is outside the repository. The three operations the
  processor calls are taken as parameters, collected in one record:
  \<^item> \<open>touches g1 g2\<close> is \<^verbatim>\<open>g1.touches(g2)\<close>;
  \<^item> \<open>shared g1 g2\<close> is \<^verbatim>\<open>g1.boundary.intersection(g2.boundary).length\<close>;
  \<^item> \<open>union g1 g2\<close> is \<^verbatim>\<open>g1.union(g2)\<close> and \<open>union_all gs\<close> is
    \<^verbatim>\<open>GeoSeries.union_all()\<close>.
  Lengths and numeric columns are real numbers (the source computes with floats; rounding is
  not modelled).
\<close>

record 'g geom_ops =
  touches :: "'g \<Rightarrow> 'g \<Rightarrow> bool"
  shared :: "'g \<Rightarrow> 'g \<Rightarrow> real"
  union :: "'g \<Rightarrow> 'g \<Rightarrow> 'g"
  union_all :: "'g list \<Rightarrow> 'g"

type_synonym col = string

text \<open>
  One row of a GeoDataFrame. \<open>poly_id\<close> is the column named by the \<^verbatim>\<open>poly_id\<close>
  argument, \<open>orig_id\<close> the column named by \<^verbatim>\<open>orig_id_col\<close>. \<open>num\<close> holds the numeric
  columns by name (every row carries every column the processor is configured with; a
  missing column is a KeyError in pandas and is outside the model). \<open>meta\<close> holds every
  other column by name (commune, commune\_id, sregion\_id, zone\_type, ...).
  \<open>was_multipart\<close> and \<open>comb_adj\<close> are \<open>None\<close> where the column is absent.
\<close>

record 'g row =
  geometry :: 'g
  poly_id :: string
  orig_id :: string
  num :: "col \<Rightarrow> real"
  meta :: "col \<rightharpoonup> string"
  was_multipart :: "int option"
  comb_adj :: "nat option"

text \<open>A data frame: the rows in order, each with its index label.\<close>

type_synonym 'g frame = "(nat \<times> 'g row) list"

definition index :: "'g frame \<Rightarrow> nat list" where
  "index df = map fst df"

definition geometries :: "'g frame \<Rightarrow> 'g list" where
  "geometries df = map (\<lambda>(i, r). geometry r) df"

text \<open>\<^verbatim>\<open>df.loc[i]\<close> for a label \<open>i\<close>; \<open>None\<close> is pandas' KeyError.\<close>

definition loc :: "'g frame \<Rightarrow> nat \<Rightarrow> 'g row option" where
  "loc df i = map_of df i"

text \<open>\<^verbatim>\<open>df.drop(index=labels)\<close>.\<close>

definition drop_index :: "'g frame \<Rightarrow> nat list \<Rightarrow> 'g frame" where
  "drop_index df labels = filter (\<lambda>(i, r). i \<notin> set labels) df"

text \<open>The processor's configuration (the constructor's arguments that the run reads).\<close>

record config =
  num_cols :: "col list"
  count_cols :: "col list"
  pop_col :: col
  min_shared_len :: real

subsection \<open>Contiguity classifier\<close>

text \<open>
  \<^verbatim>\<open>_are_parts_contiguous\<close>: the outer loop over \<open>enumerate(geoms)\<close> returns False at the
  first part with no sibling found by the inner loop, when the group has more than one
  part; the inner loop skips \<open>i = j\<close> and stops at the first sibling that touches with a
  shared boundary of at least \<open>min_shared_len\<close>.
\<close>

fun touches_any_sibling :: "'g geom_ops \<Rightarrow> real \<Rightarrow> nat \<Rightarrow> 'g \<Rightarrow> (nat \<times> 'g) list \<Rightarrow> bool" where
  "touches_any_sibling G m i g1 [] = False"
| "touches_any_sibling G m i g1 ((j, g2) # rest) =
     (if i = j then touches_any_sibling G m i g1 rest
      else if touches G g1 g2 \<and> shared G g1 g2 \<ge> m then True
      else touches_any_sibling G m i g1 rest)"

fun contiguous_loop :: "'g geom_ops \<Rightarrow> real \<Rightarrow> 'g list \<Rightarrow> (nat \<times> 'g) list \<Rightarrow> bool" where
  "contiguous_loop G m geoms [] = True"
| "contiguous_loop G m geoms ((i, g1) # rest) =
     (if \<not> touches_any_sibling G m i g1 (enumerate 0 geoms) \<and> length geoms > 1 then False
      else contiguous_loop G m geoms rest)"

definition are_parts_contiguous :: "'g geom_ops \<Rightarrow> 'g frame \<Rightarrow> real \<Rightarrow> bool" where
  "are_parts_contiguous G parts_gdf m =
     (let geoms = geometries parts_gdf in contiguous_loop G m geoms (enumerate 0 geoms))"

subsection \<open>Single-neighbour search\<close>

text \<open>
  \<^verbatim>\<open>_find_best_adjacent_polygon\<close>. The inner loop over the parts' geometries leaves with
  \<open>valid = False\<close> (here \<open>None\<close>) at the first part the candidate does not touch or
  shares less than \<open>min_shared_len\<close> with; otherwise it returns the accumulated
  \<open>total_shared\<close>. The outer loop keeps the first candidate whose total is strictly
  greater than the best so far, starting from \<open>best_shared = 0.0\<close>.
\<close>

fun cand_total :: "'g geom_ops \<Rightarrow> real \<Rightarrow> 'g \<Rightarrow> 'g list \<Rightarrow> real \<Rightarrow> real option" where
  "cand_total G m cg [] total_shared = Some total_shared"
| "cand_total G m cg (geom # rest) total_shared =
     (if \<not> touches G cg geom then None
      else if shared G cg geom < m then None
      else cand_total G m cg rest (total_shared + shared G cg geom))"

fun best_adjacent_loop ::
  "'g geom_ops \<Rightarrow> real \<Rightarrow> 'g list \<Rightarrow> 'g frame \<Rightarrow> nat option \<Rightarrow> real \<Rightarrow> nat option" where
  "best_adjacent_loop G m pgeoms [] best_idx best_shared = best_idx"
| "best_adjacent_loop G m pgeoms ((idx, cand) # rest) best_idx best_shared =
     (case cand_total G m (geometry cand) pgeoms 0 of
        None \<Rightarrow> best_adjacent_loop G m pgeoms rest best_idx best_shared
      | Some total_shared \<Rightarrow>
          if total_shared > best_shared
          then best_adjacent_loop G m pgeoms rest (Some idx) total_shared
          else best_adjacent_loop G m pgeoms rest best_idx best_shared)"

definition find_best_adjacent_polygon ::
  "'g geom_ops \<Rightarrow> 'g frame \<Rightarrow> 'g frame \<Rightarrow> real \<Rightarrow> nat option" where
  "find_best_adjacent_polygon G parts_gdf candidates_gdf m =
     best_adjacent_loop G m (geometries parts_gdf) candidates_gdf None 0"

subsection \<open>Two-neighbour search\<close>

text \<open>
  STEP 1 of \<^verbatim>\<open>_merge_remaining_with_two_targets\<close>: the candidates that touch at least one
  part, each with the set of labels of the parts it touches (a Python set, here a list
  without repetition).
\<close>

definition touching_parts :: "'g geom_ops \<Rightarrow> 'g row \<Rightarrow> 'g frame \<Rightarrow> nat list" where
  "touching_parts G cand parts =
     remdups (map fst (filter (\<lambda>(part_idx, part). touches G (geometry cand) (geometry part)) parts))"

definition touching_candidates ::
  "'g geom_ops \<Rightarrow> 'g frame \<Rightarrow> 'g frame \<Rightarrow> (nat \<times> 'g row \<times> nat list) list" where
  "touching_candidates G parts non_dup =
     map (\<lambda>(idx, cand). (idx, cand, touching_parts G cand parts))
       (filter (\<lambda>(idx, cand).
          list_ex (\<lambda>(part_idx, part). touches G (geometry cand) (geometry part)) parts) non_dup)"

text \<open>
  The sum of the candidate's shared boundary with the parts whose labels are in its set;
  \<^verbatim>\<open>parts.loc[part_idx]\<close> cannot miss, the labels come from \<open>parts\<close>.
\<close>

definition shared_with_parts :: "'g geom_ops \<Rightarrow> 'g frame \<Rightarrow> 'g row \<Rightarrow> nat list \<Rightarrow> real" where
  "shared_with_parts G parts cand tp =
     sum_list (map (\<lambda>part_idx. case loc parts part_idx of
                      Some part \<Rightarrow> shared G (geometry cand) (geometry part)
                    | None \<Rightarrow> 0) tp)"

text \<open>STEP 2: the loops over \<open>i\<close> and \<open>j > i\<close>, collecting the valid pairs in loop order.\<close>

fun pairs_inner ::
  "'g geom_ops \<Rightarrow> real \<Rightarrow> 'g frame \<Rightarrow> (nat \<times> 'g row \<times> nat list) \<Rightarrow>
   (nat \<times> 'g row \<times> nat list) list \<Rightarrow> (nat \<times> nat \<times> real \<times> real) list" where
  "pairs_inner G m parts c1 [] = []"
| "pairs_inner G m parts (idx1, cand1, tp1) ((idx2, cand2, tp2) # rest) =
     (if \<not> touches G (geometry cand1) (geometry cand2)
      then pairs_inner G m parts (idx1, cand1, tp1) rest
      else if shared G (geometry cand1) (geometry cand2) < m
      then pairs_inner G m parts (idx1, cand1, tp1) rest
      else if set tp1 \<union> set tp2 \<noteq> set (index parts)
      then pairs_inner G m parts (idx1, cand1, tp1) rest
      else (idx1, idx2,
            shared_with_parts G parts cand1 tp1 + shared_with_parts G parts cand2 tp2,
            shared G (geometry cand1) (geometry cand2))
           # pairs_inner G m parts (idx1, cand1, tp1) rest)"

fun pairs_outer ::
  "'g geom_ops \<Rightarrow> real \<Rightarrow> 'g frame \<Rightarrow> (nat \<times> 'g row \<times> nat list) list \<Rightarrow>
   (nat \<times> nat \<times> real \<times> real) list" where
  "pairs_outer G m parts [] = []"
| "pairs_outer G m parts (c1 # rest) = pairs_inner G m parts c1 rest @ pairs_outer G m parts rest"

definition valid_pairs ::
  "'g geom_ops \<Rightarrow> real \<Rightarrow> 'g frame \<Rightarrow> 'g frame \<Rightarrow> (nat \<times> nat \<times> real \<times> real) list" where
  "valid_pairs G m parts non_dup = pairs_outer G m parts (touching_candidates G parts non_dup)"

text \<open>
  \<^verbatim>\<open>list.sort(key=..., reverse=True)\<close> is stable: Python reverses the list, sorts it
  ascending with its stable sort, and reverses the result.
\<close>

definition pair_key :: "nat \<times> nat \<times> real \<times> real \<Rightarrow> real \<times> real" where
  "pair_key x = (case x of (i1, i2, total_shared, shared_len) \<Rightarrow> (total_shared, shared_len))"

definition sort_reverse :: "('a \<Rightarrow> 'k::linorder) \<Rightarrow> 'a list \<Rightarrow> 'a list" where
  "sort_reverse key xs = rev (sort_key key (rev xs))"

text \<open>STEP 1 to STEP 3: the search, up to the choice of the best pair.\<close>

definition find_two_targets ::
  "'g geom_ops \<Rightarrow> real \<Rightarrow> 'g frame \<Rightarrow> 'g frame \<Rightarrow> (nat \<times> nat) option" where
  "find_two_targets G m parts non_dup =
     (if length (touching_candidates G parts non_dup) < 2 then None
      else case sort_reverse pair_key (valid_pairs G m parts non_dup) of
             [] \<Rightarrow> None
           | (best_idx1, best_idx2, t, s) # rest \<Rightarrow> Some (best_idx1, best_idx2))"

subsection \<open>Strings\<close>

datatype error = IndexError | KeyError | ValueError

text \<open>\<^verbatim>\<open>str(n)\<close> for a natural number and for an integer.\<close>

definition digit_char :: "nat \<Rightarrow> char" where
  "digit_char d = ''0123456789'' ! d"

fun str_nat :: "nat \<Rightarrow> string" where
  "str_nat n = (if n < 10 then [digit_char n] else str_nat (n div 10) @ [digit_char (n mod 10)])"

declare str_nat.simps [simp del]

definition str_int :: "int \<Rightarrow> string" where
  "str_int i = (if i < 0 then CHR ''-'' # str_nat (nat (- i)) else str_nat (nat i))"

text \<open>
  \<^verbatim>\<open>int(s)\<close> on the strings of ASCII digits, \<open>None\<close> elsewhere. On the empty string and on
  a string with a letter Python raises ValueError; it also reads a sign, surrounding blanks
  and underscores between digits, which identifiers made by \<^verbatim>\<open>astype(int).astype(str)\<close>
  from non-negative numbers do not have, and on those the model says \<open>None\<close> as well.
\<close>

definition digit_val :: "char \<rightharpoonup> nat" where
  "digit_val = map_of
     [(CHR ''0'', 0), (CHR ''1'', 1), (CHR ''2'', 2), (CHR ''3'', 3), (CHR ''4'', 4),
      (CHR ''5'', 5), (CHR ''6'', 6), (CHR ''7'', 7), (CHR ''8'', 8), (CHR ''9'', 9)]"

fun py_int_acc :: "nat \<Rightarrow> string \<Rightarrow> nat option" where
  "py_int_acc a [] = Some a"
| "py_int_acc a (c # cs) =
     (case digit_val c of None \<Rightarrow> None | Some d \<Rightarrow> py_int_acc (10 * a + d) cs)"

definition py_int :: "string \<Rightarrow> nat option" where
  "py_int s = (if s = [] then None else py_int_acc 0 s)"

text \<open>\<^verbatim>\<open>s.zfill(w)\<close>: zeros on the left, after a leading sign.\<close>

definition zfill :: "nat \<Rightarrow> string \<Rightarrow> string" where
  "zfill w s =
     (case s of
        c # cs \<Rightarrow> if c = CHR ''-'' \<or> c = CHR ''+''
                  then c # replicate (w - length s) CHR ''0'' @ cs
                  else replicate (w - length s) CHR ''0'' @ s
      | [] \<Rightarrow> replicate w CHR ''0'')"

text \<open>\<^verbatim>\<open>s.ljust(w, '0')\<close>, \<^verbatim>\<open>s[:n]\<close>, \<^verbatim>\<open>s[:-2]\<close>, \<^verbatim>\<open>s[-3:]\<close>, \<^verbatim>\<open>s.startswith(b)\<close>.\<close>

definition ljust :: "nat \<Rightarrow> string \<Rightarrow> string" where
  "ljust w s = s @ replicate (w - length s) CHR ''0''"

definition strip_last2 :: "string \<Rightarrow> string" where
  "strip_last2 s = take (length s - 2) s"

definition last3 :: "string \<Rightarrow> string" where
  "last3 s = drop (length s - 3) s"

definition startswith :: "string \<Rightarrow> string \<Rightarrow> bool" where
  "startswith s b = (take (length b) s = b)"

text \<open>\<^verbatim>\<open>sep.join(xs)\<close>.\<close>

fun join :: "string \<Rightarrow> string list \<Rightarrow> string" where
  "join sep [] = []"
| "join sep [x] = x"
| "join sep (x # y # ys) = x @ sep @ join sep (y # ys)"

subsection \<open>Identifier allocator\<close>

text \<open>
  The part of the processor object that the allocator reads and writes: the identifiers
  of \<^verbatim>\<open>self.data[self.poly_id]\<close> and the set \<^verbatim>\<open>self.generated_ids\<close> (both sets in the
  source; only membership and a maximum are taken, so lists stand for them).
\<close>

record relabeller =
  data_ids :: "string list"
  generated_ids :: "string list"

fun parse_suffixes :: "string list \<Rightarrow> error + nat list" where
  "parse_suffixes [] = Inr []"
| "parse_suffixes (x # xs) =
     (case py_int (last3 x) of
        None \<Rightarrow> Inl ValueError
      | Some n \<Rightarrow> (case parse_suffixes xs of Inl e \<Rightarrow> Inl e | Inr ns \<Rightarrow> Inr (n # ns)))"

text \<open>\<^verbatim>\<open>max(suffixes, default=0)\<close>.\<close>

definition max_default0 :: "nat list \<Rightarrow> nat" where
  "max_default0 ns = (case ns of [] \<Rightarrow> 0 | n # rest \<Rightarrow> fold max rest n)"

definition generate_new_id :: "relabeller \<Rightarrow> string \<Rightarrow> error + (string \<times> relabeller)" where
  "generate_new_id st orig =
     (let base_id = strip_last2 orig;
          used_ids = data_ids st @ generated_ids st
      in case parse_suffixes (filter (\<lambda>x. startswith x base_id) used_ids) of
           Inl e \<Rightarrow> Inl e
         | Inr suffixes \<Rightarrow>
             let next_suffix = max_default0 suffixes + 1;
                 new_id = base_id @ zfill 3 (str_nat next_suffix)
             in Inr (new_id, st\<lparr>generated_ids := generated_ids st @ [new_id]\<rparr>))"

subsection \<open>Attribute merger\<close>

text \<open>
  \<^verbatim>\<open>_merge_parts_and_targets\<close>. \<open>base_dup\<close> is the first row of the group
  (\<^verbatim>\<open>parts.iloc[0]\<close>); the new row is a copy of \<^verbatim>\<open>targets[0]\<close> with the geometry, the
  count columns, the averaged columns, the two flags and the two identifiers replaced.
\<close>

definition avg_cols :: "config \<Rightarrow> col list" where
  "avg_cols cfg = filter (\<lambda>c. c \<notin> set (count_cols cfg)) (num_cols cfg)"

definition counts_sum :: "'g row \<Rightarrow> 'g row list \<Rightarrow> col \<Rightarrow> real" where
  "counts_sum base_dup targets c = fold (\<lambda>t acc. acc + num t c) targets (num base_dup c)"

definition weighted_avg :: "config \<Rightarrow> 'g row \<Rightarrow> 'g row list \<Rightarrow> col \<Rightarrow> real" where
  "weighted_avg cfg base_dup targets c =
     (let pop_dup = num base_dup (pop_col cfg);
          pop_targets = sum_list (map (\<lambda>t. num t (pop_col cfg)) targets);
          total_pop = pop_dup + pop_targets
      in if total_pop > 0 then
           let dup_avg = num base_dup c;
               targets_avg =
                 (if pop_targets > 0
                  then sum_list (map (\<lambda>t. num t c * num t (pop_col cfg)) targets) / pop_targets
                  else dup_avg)
           in dup_avg * (pop_dup / total_pop) + targets_avg * (pop_targets / total_pop)
         else num base_dup c)"

definition merge_parts_and_targets ::
  "config \<Rightarrow> 'g geom_ops \<Rightarrow> relabeller \<Rightarrow> 'g frame \<Rightarrow> 'g row list \<Rightarrow> string \<Rightarrow>
   error + ('g row \<times> relabeller)" where
  "merge_parts_and_targets cfg G st parts targets orig =
     (case parts of
        [] \<Rightarrow> Inl IndexError
      | (i0, base_dup) # others \<Rightarrow>
          (case targets of
             [] \<Rightarrow> Inl IndexError
           | t0 # ts \<Rightarrow>
               (case generate_new_id st orig of
                  Inl e \<Rightarrow> Inl e
                | Inr (new_id, st') \<Rightarrow>
                    Inr (t0\<lparr>geometry :=
                               fold (\<lambda>t g. union G g (geometry t)) targets
                                 (union_all G (geometries parts)),
                             poly_id := new_id,
                             orig_id := join ''_'' (orig_id base_dup # map orig_id targets),
                             num := (\<lambda>c. if c \<in> set (avg_cols cfg)
                                          then weighted_avg cfg base_dup targets c
                                          else if c \<in> set (count_cols cfg)
                                          then counts_sum base_dup targets c
                                          else num t0 c),
                             was_multipart := Some 1,
                             comb_adj := Some (length targets)\<rparr>, st'))))"

text \<open>STEP 4 of \<^verbatim>\<open>_merge_remaining_with_two_targets\<close>: the merge with the chosen pair.\<close>

definition merge_remaining_with_two_targets ::
  "config \<Rightarrow> 'g geom_ops \<Rightarrow> relabeller \<Rightarrow> 'g frame \<Rightarrow> 'g frame \<Rightarrow> string \<Rightarrow>
   error + ('g row \<times> nat list \<times> relabeller) option" where
  "merge_remaining_with_two_targets cfg G st parts non_dup orig =
     (case find_two_targets G (min_shared_len cfg) parts non_dup of
        None \<Rightarrow> Inr None
      | Some (best_idx1, best_idx2) \<Rightarrow>
          (case (loc non_dup best_idx1, loc non_dup best_idx2) of
             (Some target1, Some target2) \<Rightarrow>
               (case merge_parts_and_targets cfg G st parts [target1, target2] orig of
                  Inl e \<Rightarrow> Inl e
                | Inr (new_row, st') \<Rightarrow> Inr (Some (new_row, [best_idx1, best_idx2], st')))
           | _ \<Rightarrow> Inl KeyError))"

subsection \<open>Resolution orchestrator\<close>

text \<open>
  \<^verbatim>\<open>dup_gdf.groupby(orig_id_col)\<close>: one group per distinct key, the keys in ascending
  order, each group holding its rows in the frame's order with their labels.
\<close>

definition groupby_orig :: "'g frame \<Rightarrow> (string \<times> 'g frame) list" where
  "groupby_orig df =
     map (\<lambda>k. (k, filter (\<lambda>(i, r). orig_id r = k) df))
       (sort (remdups (map (\<lambda>(i, r). orig_id r) df)))"

text \<open>The three lists the loop appends to, and the processor object.\<close>

record 'g run_acc =
  resolved_rows :: "'g row list"
  consumed_dup_idx :: "nat list"
  consumed_nondup_idx :: "nat list"
  obj :: relabeller

text \<open>
  The loop of \<^verbatim>\<open>_resolve_multipart_by_contiguity\<close> over the groups. Every search is
  given \<open>non_dup\<close>, the frame the method was called with.
\<close>

fun resolve_loop ::
  "config \<Rightarrow> 'g geom_ops \<Rightarrow> 'g frame \<Rightarrow> (string \<times> 'g frame) list \<Rightarrow> 'g run_acc \<Rightarrow>
   error + 'g run_acc" where
  "resolve_loop cfg G non_dup [] a = Inr a"
| "resolve_loop cfg G non_dup ((orig, parts) # rest) a =
     (if are_parts_contiguous G parts (min_shared_len cfg) then
        (case parts of
           [] \<Rightarrow> Inl IndexError
         | (i0, p0) # others \<Rightarrow>
             resolve_loop cfg G non_dup rest
               (a\<lparr>resolved_rows := resolved_rows a @
                     [p0\<lparr>geometry := union_all G (geometries parts), poly_id := orig,
                         was_multipart := Some 1, comb_adj := Some 0\<rparr>],
                   consumed_dup_idx := consumed_dup_idx a @ index parts\<rparr>))
      else
        (case find_best_adjacent_polygon G parts non_dup (min_shared_len cfg) of
           Some candidate_idx \<Rightarrow>
             (case loc non_dup candidate_idx of
                None \<Rightarrow> Inl KeyError
              | Some target \<Rightarrow>
                  (case merge_parts_and_targets cfg G (obj a) parts [target] orig of
                     Inl e \<Rightarrow> Inl e
                   | Inr (new_row, st') \<Rightarrow>
                       resolve_loop cfg G non_dup rest
                         (a\<lparr>resolved_rows := resolved_rows a @ [new_row],
                             consumed_dup_idx := consumed_dup_idx a @ index parts,
                             consumed_nondup_idx := consumed_nondup_idx a @ [candidate_idx],
                             obj := st'\<rparr>)))
         | None \<Rightarrow>
             (case merge_remaining_with_two_targets cfg G (obj a) parts non_dup orig of
                Inl e \<Rightarrow> Inl e
              | Inr None \<Rightarrow> resolve_loop cfg G non_dup rest a
              | Inr (Some (new_row, used_indices, st')) \<Rightarrow>
                  resolve_loop cfg G non_dup rest
                    (a\<lparr>resolved_rows := resolved_rows a @ [new_row],
                        consumed_dup_idx := consumed_dup_idx a @ index parts,
                        consumed_nondup_idx := consumed_nondup_idx a @ used_indices,
                        obj := st'\<rparr>))))"

text \<open>
  The column filter of the result keeps, of the columns that are not numeric, the
  geometry, the two identifiers, the two flags and commune, commune\_id and sregion\_id.
  (It also drops the numeric columns outside \<open>num_cols\<close>; the model leaves \<open>num\<close> as it
  is and nothing below reads such a column of a filtered row.)
\<close>

definition select_cols :: "'g row \<Rightarrow> 'g row" where
  "select_cols r = r\<lparr>meta := meta r |` {''commune'', ''commune_id'', ''sregion_id''}\<rparr>"

text \<open>\<^verbatim>\<open>.str[:15]\<close> followed by \<^verbatim>\<open>.str.ljust(15, "0")\<close>.\<close>

definition final_id :: "string \<Rightarrow> string" where
  "final_id s = ljust 15 (take 15 s)"

text \<open>
  \<^verbatim>\<open>_resolve_multipart_by_contiguity\<close>: the resolved frame (its index is reset, so it is a
  list of rows), the remaining duplicated rows, and the accumulator of the loop with the
  processor object after the run.
\<close>

definition resolve_multipart_by_contiguity ::
  "config \<Rightarrow> 'g geom_ops \<Rightarrow> relabeller \<Rightarrow> 'g frame \<Rightarrow> 'g frame \<Rightarrow>
   error + ('g row list \<times> 'g frame \<times> 'g run_acc)" where
  "resolve_multipart_by_contiguity cfg G st dup_gdf non_dup_gdf =
     (case resolve_loop cfg G non_dup_gdf (groupby_orig dup_gdf)
             \<lparr>resolved_rows = [], consumed_dup_idx = [], consumed_nondup_idx = [], obj = st\<rparr> of
        Inl e \<Rightarrow> Inl e
      | Inr a \<Rightarrow>
          let remaining_dup = drop_index dup_gdf (consumed_dup_idx a);
              remaining_nondup = drop_index non_dup_gdf (consumed_nondup_idx a);
              combined = map snd remaining_nondup @ resolved_rows a
          in Inr (map (\<lambda>r. (select_cols r)\<lparr>poly_id := final_id (poly_id r)\<rparr>) combined,
                  remaining_dup, a))"

subsection \<open>Plain relabel\<close>

text \<open>\<^verbatim>\<open>groupby(poly_id).cumcount()\<close>: for each row, how many earlier rows have its identifier.\<close>

fun cumcount :: "string list \<Rightarrow> string list \<Rightarrow> nat list" where
  "cumcount seen [] = []"
| "cumcount seen (x # xs) = count_list seen x # cumcount (seen @ [x]) xs"

text \<open>
  \<^verbatim>\<open>_relabel_multipart_blocks\<close>. The input pairs each row with its identifier after
  \<^verbatim>\<open>astype(int)\<close>. \<open>identify\<close> stands for \<^verbatim>\<open>identify_multipart_polygons(data, poly_id,
  keep_largest=False)\<close> of the base class, which returns the non-duplicated and the
  duplicated rows. The returned columns keep commune\_id, commune and zone\_type of the
  non-numeric ones; \<^verbatim>\<open>comb_adj\<close> is not among them.
\<close>

definition relabel_multipart_blocks ::
  "nat \<Rightarrow> ('g row list \<Rightarrow> 'g row list \<times> 'g row list) \<Rightarrow> (int \<times> 'g row) list \<Rightarrow> 'g row list" where
  "relabel_multipart_blocks id_length identify input =
     (let data0 = map (\<lambda>(i, r). r\<lparr>poly_id := str_int i, orig_id := str_int i\<rparr>) input;
          (data1, dup0) = identify data0;
          dup = map (\<lambda>(r, k). r\<lparr>poly_id := poly_id r @ zfill 2 (str_nat (k + 1)),
                                 was_multipart := Some 1\<rparr>)
                  (zip dup0 (cumcount [] (map poly_id dup0)));
          original_ids = map (\<lambda>r. strip_last2 (poly_id r)) dup;
          data2 = map (\<lambda>r. r\<lparr>was_multipart := Some 0\<rparr>)
                    (filter (\<lambda>r. poly_id r \<notin> set original_ids) data1)
      in map (\<lambda>r. r\<lparr>poly_id := ljust id_length (poly_id r),
                      meta := meta r |` {''commune_id'', ''commune'', ''zone_type''},
                      comb_adj := None\<rparr>)
           (data2 @ dup))"

text \<open>
  Modelled from the spec: \<^verbatim>\<open>identify_multipart_polygons\<close> of base\_processor.py, which is
  not among the sources. The spec describes it as the collaborator that "partitions records
  into non-duplicated vs duplicated by identifier count"; with \<open>keep_largest\<close> false no row
  is dropped.
\<close>

definition identify_multipart_polygons :: "'g row list \<Rightarrow> 'g row list \<times> 'g row list" where
  "identify_multipart_polygons rows =
     (filter (\<lambda>r. count_list (map poly_id rows) (poly_id r) = 1) rows,
      filter (\<lambda>r. count_list (map poly_id rows) (poly_id r) > 1) rows)"

subsection \<open>Connectivity of a part-group\<close>

text \<open>
  Modelled from the spec: the strict mode of the contiguity classifier, which the sources
  do not have. The spec asks for "single-component connectivity (breadth-first reachability
  across the part adjacency graph)", with parts as nodes and the touch test with minimum
  shared length as edges. \<open>reach\<close> makes \<open>k\<close> rounds of adding the neighbours of the parts
  seen so far; \<open>n\<close> rounds reach everything reachable among \<open>n\<close> parts.
\<close>

definition part_adjacent :: "'g geom_ops \<Rightarrow> real \<Rightarrow> 'g list \<Rightarrow> nat \<Rightarrow> nat \<Rightarrow> bool" where
  "part_adjacent G m geoms i j =
     (i \<noteq> j \<and> touches G (geoms ! i) (geoms ! j) \<and> shared G (geoms ! i) (geoms ! j) \<ge> m)"

fun reach :: "(nat \<Rightarrow> nat \<Rightarrow> bool) \<Rightarrow> nat \<Rightarrow> nat \<Rightarrow> nat list \<Rightarrow> nat list" where
  "reach adj n 0 seen = seen"
| "reach adj n (Suc k) seen =
     reach adj n k (seen @ filter (\<lambda>j. j \<notin> set seen \<and> list_ex (\<lambda>i. adj i j) seen) [0..<n])"

definition strict_contiguous :: "'g geom_ops \<Rightarrow> 'g frame \<Rightarrow> real \<Rightarrow> bool" where
  "strict_contiguous G parts_gdf m =
     (let geoms = geometries parts_gdf; n = length geoms
      in n \<le> 1 \<or> set (reach (part_adjacent G m geoms) n n [0]) = {0..<n})"

subsection \<open>Example data\<close>

text \<open>
  Concrete instances for the examples below. A geometry is the list of the names of the
  atomic polygons it is made of; two atomic polygons touch when the table lists them, with
  the shared boundary length the table gives; a union joins the lists.
\<close>

definition table_ops :: "(nat \<times> nat \<times> real) list \<Rightarrow> (nat list) geom_ops" where
  "table_ops tbl =
     \<lparr>touches = (\<lambda>a b. list_ex (\<lambda>(x, y, l). (a = [x] \<and> b = [y]) \<or> (a = [y] \<and> b = [x])) tbl),
      shared = (\<lambda>a b. case find (\<lambda>(x, y, l). (a = [x] \<and> b = [y]) \<or> (a = [y] \<and> b = [x])) tbl of
                         Some (x, y, l) \<Rightarrow> l | None \<Rightarrow> 0),
      union = (\<lambda>a b. a @ b),
      union_all = concat\<rparr>"

text \<open>A row with one atomic polygon, an identifier, a population and an averaged value.\<close>

definition mk_row :: "nat \<Rightarrow> string \<Rightarrow> real \<Rightarrow> real \<Rightarrow> (nat list) row" where
  "mk_row g ident pop esc =
     \<lparr>geometry = [g], poly_id = ident, orig_id = ident,
      num = (\<lambda>c. if c = ''n_per'' then pop else if c = ''prom_escolaridad18'' then esc else 0),
      meta = Map.empty, was_multipart = None, comb_adj = None\<rparr>"

text \<open>The constructor's defaults and the default \<^verbatim>\<open>min_shared_len=5.0\<close>.\<close>

definition default_config :: config where
  "default_config = \<lparr>num_cols = [''n_per'', ''n_vp_ocupada'', ''prom_escolaridad18''],
                      count_cols = [''n_per'', ''n_vp_ocupada''],
                      pop_col = ''n_per'', min_shared_len = 5\<rparr>"

text \<open>
  A group of three parts: A (polygon 1) and B (polygon 2) share a boundary of length 10,
  C (polygon 3) touches nothing.
\<close>

definition abc_ops :: "(nat list) geom_ops" where
  "abc_ops = table_ops [(1, 2, 10)]"

definition abc_group :: "(nat list) frame" where
  "abc_group = [(0, mk_row 1 ''7'' 0 0), (1, mk_row 2 ''7'' 0 0), (2, mk_row 3 ''7'' 0 0)]"

subsection \<open>Vocabulary of the neighbour searches\<close>

text \<open>
  A candidate is fully valid for a group when it touches every part with a shared
  boundary of at least the threshold; its total is the sum of these shared lengths.
\<close>

definition fully_valid :: "'g geom_ops \<Rightarrow> real \<Rightarrow> 'g frame \<Rightarrow> 'g row \<Rightarrow> bool" where
  "fully_valid G m parts cand =
     (\<forall>g \<in> set (geometries parts). touches G (geometry cand) g \<and> shared G (geometry cand) g \<ge> m)"

definition total_shared :: "'g geom_ops \<Rightarrow> 'g frame \<Rightarrow> 'g row \<Rightarrow> real" where
  "total_shared G parts cand = sum_list (map (shared G (geometry cand)) (geometries parts))"

text \<open>
  Two parts (polygons 1 and 2) that do not touch each other, and one candidate (polygon 9)
  that touches each of them in a single point: a shared boundary of length 0.
\<close>

definition vertex_ops :: "(nat list) geom_ops" where
  "vertex_ops = table_ops [(1, 9, 0), (2, 9, 0)]"

definition vertex_parts :: "(nat list) frame" where
  "vertex_parts = [(0, mk_row 1 ''7'' 10 0), (1, mk_row 2 ''7'' 10 0)]"

definition vertex_pool :: "(nat list) frame" where
  "vertex_pool = [(0, mk_row 9 ''8'' 10 0)]"

text \<open>The same layout with shared boundaries of length 10 and 6, and a second candidate.\<close>

definition edge_ops :: "(nat list) geom_ops" where
  "edge_ops = table_ops [(1, 9, 10), (2, 9, 6), (1, 8, 7), (2, 8, 7)]"

definition edge_pool :: "(nat list) frame" where
  "edge_pool = [(0, mk_row 8 ''5'' 10 0), (1, mk_row 9 ''8'' 10 0)]"

subsection \<open>Vocabulary of the merge\<close>

text \<open>
  The total population of some rows, their population-weighted sum of a column, and the
  rows of the pool that a list of labels names.
\<close>

definition pop_sum :: "config \<Rightarrow> 'g row list \<Rightarrow> real" where
  "pop_sum cfg rows = sum_list (map (\<lambda>t. num t (pop_col cfg)) rows)"

definition weighted_sum :: "config \<Rightarrow> col \<Rightarrow> 'g row list \<Rightarrow> real" where
  "weighted_sum cfg c rows = sum_list (map (\<lambda>t. num t c * num t (pop_col cfg)) rows)"

definition absorbed :: "'g frame \<Rightarrow> nat list \<Rightarrow> 'g row list" where
  "absorbed pool labels = List.map_filter (loc pool) labels"

text \<open>
  The weighted average as the spec words it: the base weight is the total population of
  the whole part-group.
\<close>

definition group_weighted_avg :: "config \<Rightarrow> 'g frame \<Rightarrow> 'g row list \<Rightarrow> col \<Rightarrow> real" where
  "group_weighted_avg cfg parts targets c =
     (num (snd (hd parts)) c * pop_sum cfg (map snd parts) + weighted_sum cfg c targets)
       / (pop_sum cfg (map snd parts) + pop_sum cfg targets)"

text \<open>
  The spec's instance of the weighted average: a group of population 50 with the averaged
  value 12, a neighbour of population 50 with the value 20. In \<open>avg_parts_dup\<close> both part
  rows carry the population of the whole block; in \<open>avg_parts_split\<close> the population is
  split over the parts as their areas 10 and 90 are.
\<close>

definition avg_ops :: "(nat list) geom_ops" where
  "avg_ops = table_ops [(1, 9, 10), (2, 9, 10)]"

definition avg_parts_dup :: "(nat list) frame" where
  "avg_parts_dup = [(0, mk_row 1 ''7'' 50 12), (1, mk_row 2 ''7'' 50 12)]"

definition avg_parts_split :: "(nat list) frame" where
  "avg_parts_split = [(0, mk_row 1 ''7'' 5 12), (1, mk_row 2 ''7'' 45 12)]"

definition avg_neighbour :: "(nat list) row" where
  "avg_neighbour = (mk_row 9 ''8'' 50 20)\<lparr>meta := [''commune'' \<mapsto> ''PUENTE ALTO'']\<rparr>"

definition avg_pool :: "(nat list) frame" where
  "avg_pool = [(4, avg_neighbour)]"

definition empty_relabeller :: relabeller where
  "empty_relabeller = \<lparr>data_ids = [], generated_ids = []\<rparr>"

definition empty_acc :: "(nat list) run_acc" where
  "empty_acc = \<lparr>resolved_rows = [], consumed_dup_idx = [], consumed_nondup_idx = [],
                 obj = empty_relabeller\<rparr>"

subsection \<open>Vocabulary of the run\<close>

text \<open>One iteration of the loop over the groups.\<close>

definition resolve_group ::
  "config \<Rightarrow> 'g geom_ops \<Rightarrow> 'g frame \<Rightarrow> string \<Rightarrow> 'g frame \<Rightarrow> 'g run_acc \<Rightarrow> error + 'g run_acc" where
  "resolve_group cfg G non_dup orig parts a = resolve_loop cfg G non_dup [(orig, parts)] a"

text \<open>
  The labels that a group takes from a pool when it is resolved against that pool alone:
  none when its parts are accepted as contiguous, the single neighbour if there is one,
  otherwise the pair if there is one.
\<close>

definition group_choice :: "'g geom_ops \<Rightarrow> real \<Rightarrow> 'g frame \<Rightarrow> 'g frame \<Rightarrow> nat list" where
  "group_choice G m parts pool =
     (if are_parts_contiguous G parts m then []
      else case find_best_adjacent_polygon G parts pool m of
             Some i \<Rightarrow> [i]
           | None \<Rightarrow> (case find_two_targets G m parts pool of
                         Some (i1, i2) \<Rightarrow> [i1, i2]
                       | None \<Rightarrow> []))"

text \<open>Two parts that touch along a boundary of length 10, with populations 3 and 4.\<close>

definition direct_parts :: "(nat list) frame" where
  "direct_parts = [(0, mk_row 1 ''7'' 3 0), (1, mk_row 2 ''7'' 4 0)]"

text \<open>
  Two groups (original identifiers 6 and 7) of two parts each, no part touching another,
  and one candidate (polygon 9) that touches all four parts along boundaries of length 10.
\<close>

definition shared_ops :: "(nat list) geom_ops" where
  "shared_ops = table_ops [(1, 9, 10), (2, 9, 10), (3, 9, 10), (4, 9, 10)]"

definition shared_dup :: "(nat list) frame" where
  "shared_dup = [(0, mk_row 1 ''6'' 10 0), (1, mk_row 2 ''6'' 10 0),
                 (2, mk_row 3 ''7'' 10 0), (3, mk_row 4 ''7'' 10 0)]"

definition shared_pool :: "(nat list) frame" where
  "shared_pool = [(0, mk_row 9 ''8'' 10 0)]"

text \<open>
  Fourteen-digit block identifiers. Block 13110011001005 has two parts (polygons 1 and 2)
  that do not touch; block 13110011001009 (polygon 11) touches both along boundaries of
  length 10; block 13110011001001 (polygon 10) touches nothing. The processor's data holds
  the identifiers of all four rows.
\<close>

definition clash_ops :: "(nat list) geom_ops" where
  "clash_ops = table_ops [(1, 11, 10), (2, 11, 10)]"

definition clash_dup :: "(nat list) frame" where
  "clash_dup = [(0, mk_row 1 ''13110011001005'' 10 0), (1, mk_row 2 ''13110011001005'' 10 0)]"

definition clash_pool :: "(nat list) frame" where
  "clash_pool = [(0, mk_row 10 ''13110011001001'' 10 0), (1, mk_row 11 ''13110011001009'' 10 0)]"

definition clash_state :: relabeller where
  "clash_state = \<lparr>data_ids = [''13110011001001'', ''13110011001009'',
                               ''13110011001005'', ''13110011001005''],
                   generated_ids = []\<rparr>"

text \<open>Two rows with the same fifteen-digit identifier.\<close>

definition wide_input :: "(int \<times> (nat list) row) list" where
  "wide_input = [(100000000000000, mk_row 1 [] 10 0), (100000000000000, mk_row 2 [] 10 0)]"

subsection \<open>Vocabulary of the two-neighbour search\<close>

text \<open>
  A candidate touches some part; the total boundary it shares with the parts it touches;
  a valid pair of candidates: both touch some part, they touch each other along a boundary
  of at least the threshold, and every part is touched by one of them; the score of a pair,
  compared lexicographically.
\<close>

definition touches_some :: "'g geom_ops \<Rightarrow> 'g frame \<Rightarrow> 'g row \<Rightarrow> bool" where
  "touches_some G parts cand = (\<exists>p \<in> set parts. touches G (geometry cand) (geometry (snd p)))"

definition shared_touched :: "'g geom_ops \<Rightarrow> 'g frame \<Rightarrow> 'g row \<Rightarrow> real" where
  "shared_touched G parts cand =
     sum_list (map (\<lambda>p. shared G (geometry cand) (geometry (snd p)))
                 (filter (\<lambda>p. touches G (geometry cand) (geometry (snd p))) parts))"

definition valid_pair :: "'g geom_ops \<Rightarrow> real \<Rightarrow> 'g frame \<Rightarrow> 'g row \<Rightarrow> 'g row \<Rightarrow> bool" where
  "valid_pair G m parts c1 c2 =
     (touches_some G parts c1 \<and> touches_some G parts c2 \<and>
      touches G (geometry c1) (geometry c2) \<and> shared G (geometry c1) (geometry c2) \<ge> m \<and>
      (\<forall>p \<in> set parts. touches G (geometry c1) (geometry (snd p)) \<or>
                         touches G (geometry c2) (geometry (snd p))))"

definition pair_score :: "'g geom_ops \<Rightarrow> 'g frame \<Rightarrow> 'g row \<Rightarrow> 'g row \<Rightarrow> real \<times> real" where
  "pair_score G parts c1 c2 =
     (shared_touched G parts c1 + shared_touched G parts c2,
      shared G (geometry c1) (geometry c2))"

text \<open>
  The order of the scores: first by the total shared with the touched parts, then by the
  boundary that the two candidates share.
\<close>

definition score_le :: "real \<times> real \<Rightarrow> real \<times> real \<Rightarrow> bool" where
  "score_le s t = (fst s < fst t \<or> (fst s = fst t \<and> snd s \<le> snd t))"

text \<open>The pairs of a list in the order of the loops over \<open>i\<close> and \<open>j > i\<close>.\<close>

fun pairs_from :: "'a list \<Rightarrow> ('a \<times> 'a) list" where
  "pairs_from [] = []"
| "pairs_from (x # xs) = map (Pair x) xs @ pairs_from xs"

text \<open>What the body of the inner loop appends for one pair.\<close>

definition pair_entry ::
  "'g geom_ops \<Rightarrow> real \<Rightarrow> 'g frame \<Rightarrow> (nat \<times> 'g row \<times> nat list) \<Rightarrow>
   (nat \<times> 'g row \<times> nat list) \<Rightarrow> (nat \<times> nat \<times> real \<times> real) list" where
  "pair_entry G m parts x y =
     (case (x, y) of ((idx1, cand1, tp1), (idx2, cand2, tp2)) \<Rightarrow>
        if touches G (geometry cand1) (geometry cand2) \<and>
           \<not> shared G (geometry cand1) (geometry cand2) < m \<and>
           set tp1 \<union> set tp2 = set (index parts)
        then [(idx1, idx2,
               shared_with_parts G parts cand1 tp1 + shared_with_parts G parts cand2 tp2,
               shared G (geometry cand1) (geometry cand2))]
        else [])"

text \<open>
  Two parts (polygons 1 and 2) that do not touch; polygon 8 touches part 1 along a boundary
  of length 6, polygon 9 touches part 2 along a boundary of length 7, and polygons 8 and 9
  share a boundary of length 8.
\<close>

definition two_hop_ops :: "(nat list) geom_ops" where
  "two_hop_ops = table_ops [(1, 8, 6), (2, 9, 7), (8, 9, 8)]"

definition two_hop_parts :: "(nat list) frame" where
  "two_hop_parts = [(0, mk_row 1 ''7'' 10 0), (1, mk_row 2 ''7'' 10 0)]"

definition two_hop_pool :: "(nat list) frame" where
  "two_hop_pool = [(3, mk_row 8 ''5'' 10 0), (5, mk_row 9 ''8'' 10 0)]"

section \<open>Contiguity classifier: properties\<close>

lemma touches_any_sibling_iff:
  "touches_any_sibling G m i g1 js =
     (\<exists>(j, g2) \<in> set js. j \<noteq> i \<and> touches G g1 g2 \<and> shared G g1 g2 \<ge> m)"
  by (induction G m i g1 js rule: touches_any_sibling.induct) auto

lemma contiguous_loop_iff:
  "contiguous_loop G m geoms is =
     (\<forall>(i, g1) \<in> set is. touches_any_sibling G m i g1 (enumerate 0 geoms) \<or> \<not> length geoms > 1)"
  by (induction G m geoms "is" rule: contiguous_loop.induct) auto

lemma in_set_enumerate0: "(i, g) \<in> set (enumerate 0 xs) \<longleftrightarrow> i < length xs \<and> xs ! i = g"
  by (auto simp: in_set_enumerate_eq)

text \<open>
  C7. The classifier accepts every group of one part. A group of more than one part is
  accepted exactly when every part has a sibling (another position of the group) that it
  touches with a shared boundary of at least the threshold: a degree of at least one for
  every part, not connectivity of the group.
\<close>

theorem are_parts_contiguous_degree:
  "(length parts = 1 \<longrightarrow> are_parts_contiguous G parts m) \<and>
   (length parts > 1 \<longrightarrow>
      (are_parts_contiguous G parts m \<longleftrightarrow>
         (\<forall>i < length parts. \<exists>j < length parts. j \<noteq> i \<and>
             touches G (geometry (snd (parts ! i))) (geometry (snd (parts ! j))) \<and>
             shared G (geometry (snd (parts ! i))) (geometry (snd (parts ! j))) \<ge> m)))"
proof -
  let ?gs = "geometries parts"
  have len: "length ?gs = length parts" by (simp add: geometries_def)
  have nth: "\<And>i. i < length parts \<Longrightarrow> ?gs ! i = geometry (snd (parts ! i))"
    by (simp add: geometries_def split_beta)
  have sib: "touches_any_sibling G m i (?gs ! i) (enumerate 0 ?gs) \<longleftrightarrow>
      (\<exists>j < length parts. j \<noteq> i \<and>
           touches G (geometry (snd (parts ! i))) (geometry (snd (parts ! j))) \<and>
           shared G (geometry (snd (parts ! i))) (geometry (snd (parts ! j))) \<ge> m)"
    if "i < length parts" for i
  proof -
    have "touches_any_sibling G m i (?gs ! i) (enumerate 0 ?gs) \<longleftrightarrow>
      (\<exists>j < length parts. j \<noteq> i \<and> touches G (?gs ! i) (?gs ! j) \<and> shared G (?gs ! i) (?gs ! j) \<ge> m)"
      unfolding touches_any_sibling_iff using len by (auto simp: in_set_enumerate0)
    also have "\<dots> \<longleftrightarrow> (\<exists>j < length parts. j \<noteq> i \<and>
           touches G (geometry (snd (parts ! i))) (geometry (snd (parts ! j))) \<and>
           shared G (geometry (snd (parts ! i))) (geometry (snd (parts ! j))) \<ge> m)"
      using that by (simp add: nth cong: conj_cong)
    finally show ?thesis .
  qed
  have main: "are_parts_contiguous G parts m \<longleftrightarrow>
      (\<forall>i < length parts. touches_any_sibling G m i (?gs ! i) (enumerate 0 ?gs) \<or> \<not> length parts > 1)"
    unfolding are_parts_contiguous_def Let_def contiguous_loop_iff using len
    by (auto simp: in_set_enumerate0)
  have one: "length parts = 1 \<Longrightarrow> are_parts_contiguous G parts m"
    unfolding main by simp
  have many: "are_parts_contiguous G parts m \<longleftrightarrow>
         (\<forall>i < length parts. \<exists>j < length parts. j \<noteq> i \<and>
             touches G (geometry (snd (parts ! i))) (geometry (snd (parts ! j))) \<and>
             shared G (geometry (snd (parts ! i))) (geometry (snd (parts ! j))) \<ge> m)"
    if "length parts > 1"
    unfolding main using that by (simp add: sib)
  show ?thesis using one many by blast
qed

text \<open>
  The theorem at the first two parts of the example group, which touch each other: both
  have a sibling, and the classifier accepts the pair.
\<close>

theorem are_parts_contiguous_degree_witness:
  "length (take 2 abc_group) > 1 \<and> are_parts_contiguous abc_ops (take 2 abc_group) 5"
proof -
  have sib: "\<forall>i < length (take 2 abc_group). \<exists>j < length (take 2 abc_group). j \<noteq> i \<and>
      touches abc_ops (geometry (snd (take 2 abc_group ! i))) (geometry (snd (take 2 abc_group ! j))) \<and>
      shared abc_ops (geometry (snd (take 2 abc_group ! i))) (geometry (snd (take 2 abc_group ! j))) \<ge> 5"
  proof (intro allI impI)
    fix i assume "i < length (take 2 abc_group)"
    then consider "i = 0" | "i = 1" by (auto simp: abc_group_def less_Suc_eq)
    then show "\<exists>j < length (take 2 abc_group). j \<noteq> i \<and>
      touches abc_ops (geometry (snd (take 2 abc_group ! i))) (geometry (snd (take 2 abc_group ! j))) \<and>
      shared abc_ops (geometry (snd (take 2 abc_group ! i))) (geometry (snd (take 2 abc_group ! j))) \<ge> 5"
    proof cases
      case 1
      show ?thesis unfolding 1
        by (rule exI [of _ 1]) (simp add: abc_group_def abc_ops_def table_ops_def mk_row_def)
    next
      case 2
      show ?thesis unfolding 2
        by (rule exI [of _ 0]) (simp add: abc_group_def abc_ops_def table_ops_def mk_row_def)
    qed
  qed
  have len: "length (take 2 abc_group) > 1" by (simp add: abc_group_def)
  from are_parts_contiguous_degree [of "take 2 abc_group" abc_ops 5] len sib
  show ?thesis by blast
qed

lemma reach_closed:
  "set seen \<subseteq> S \<Longrightarrow> (\<And>i j. i \<in> S \<Longrightarrow> j < n \<Longrightarrow> adj i j \<Longrightarrow> j \<in> S) \<Longrightarrow>
   set (reach adj n k seen) \<subseteq> S"
proof (induction k arbitrary: seen)
  case 0
  then show ?case by simp
next
  case (Suc k)
  have "set (seen @ filter (\<lambda>j. j \<notin> set seen \<and> list_ex (\<lambda>i. adj i j) seen) [0..<n]) \<subseteq> S"
    using Suc.prems by (auto simp: list_ex_iff)
  then show ?case using Suc.IH Suc.prems(2) by simp
qed

lemma reach_misses:
  assumes "set seen \<subseteq> S" and "\<And>i j. i \<in> S \<Longrightarrow> j < n \<Longrightarrow> adj i j \<Longrightarrow> j \<in> S"
    and "x < n" and "x \<notin> S"
  shows "set (reach adj n k seen) \<noteq> {0..<n}"
proof -
  have "set (reach adj n k seen) \<subseteq> S" using assms(1,2) by (rule reach_closed)
  then have "x \<notin> set (reach adj n k seen)" using assms(4) by blast
  moreover have "x \<in> {0..<n}" using assms(3) by simp
  ultimately show ?thesis by metis
qed

text \<open>
  C8, as the code has it. In a group of three parts A, B, C where A and B touch each other
  along a boundary of length 10 (at least the threshold) and C touches no sibling, the
  classifier of the code rejects the group: C has no sibling, and the loop returns False
  for it. A classifier by reachability over the adjacency graph rejects it as well.
\<close>

theorem isolated_part_rejected:
  assumes "geometries parts = [a, b, c]"
    and "touches G a b" and "touches G b a"
    and "shared G a b = 10" and "shared G b a = 10" and "m \<le> 10"
    and "\<not> touches G c a" and "\<not> touches G c b"
    and "\<not> touches G a c" and "\<not> touches G b c"
  shows "\<not> are_parts_contiguous G parts m \<and> \<not> strict_contiguous G parts m"
proof
  show "\<not> are_parts_contiguous G parts m"
    using assms by (simp add: are_parts_contiguous_def enumerate_simps)
  have neq: "set (reach (part_adjacent G m [a, b, c]) 3 3 [0]) \<noteq> {0..<3}"
  proof (rule reach_misses [where S = "{0, 1}" and x = 2])
    fix i j :: nat
    assume "i \<in> {0, 1}" "j < 3" "part_adjacent G m [a, b, c] i j"
    then show "j \<in> {0, 1}"
      using assms by (auto simp: part_adjacent_def less_Suc_eq numeral_3_eq_3)
  qed simp_all
  have l3: "length [a, b, c] = 3" by simp
  show "\<not> strict_contiguous G parts m"
    unfolding strict_contiguous_def Let_def assms(1) l3 using neq by (simp del: reach.simps)
qed

theorem isolated_part_rejected_witness:
  "\<not> are_parts_contiguous abc_ops abc_group 10 \<and> \<not> strict_contiguous abc_ops abc_group 10"
  by (rule isolated_part_rejected [of abc_group "[1]" "[2]" "[3]"])
     (simp_all add: abc_group_def abc_ops_def table_ops_def mk_row_def geometries_def)

text \<open>
  The claim as the spec words it says that the classifier of the code accepts this group;
  at the default threshold it does not.
\<close>

theorem weak_classifier_accepts_counterexample:
  "\<not> are_parts_contiguous abc_ops abc_group 5"
  by (simp add: are_parts_contiguous_def abc_group_def abc_ops_def table_ops_def mk_row_def
      geometries_def enumerate_simps)

section \<open>Single-neighbour search: properties\<close>

lemma cand_total_Some:
  "cand_total G m cg ps acc = Some t \<longleftrightarrow>
     (\<forall>g \<in> set ps. touches G cg g \<and> shared G cg g \<ge> m) \<and> t = acc + sum_list (map (shared G cg) ps)"
  by (induction ps arbitrary: acc) (auto simp: not_less)

lemma cand_total_valid:
  "cand_total G m (geometry cand) (geometries parts) 0 = Some t \<longleftrightarrow>
     fully_valid G m parts cand \<and> t = total_shared G parts cand"
  by (simp add: cand_total_Some fully_valid_def total_shared_def)

lemma cand_total_None:
  "cand_total G m (geometry cand) (geometries parts) 0 = None \<longleftrightarrow> \<not> fully_valid G m parts cand"
  using cand_total_valid [of G m cand parts] by (cases "cand_total G m (geometry cand) (geometries parts) 0") auto

text \<open>
  What the loop over the candidates returns, from any state of \<open>best_idx\<close>,
  \<open>best_shared\<close>: the state it started with, when no valid candidate has a total above
  \<open>best_shared\<close>; otherwise a valid candidate with a total above it that no valid
  candidate exceeds.
\<close>

lemma best_adjacent_loop_spec:
  "(best_adjacent_loop G m (geometries parts) cands b bs = b \<and>
      (\<forall>j c. (j, c) \<in> set cands \<longrightarrow> fully_valid G m parts c \<longrightarrow> total_shared G parts c \<le> bs)) \<or>
   (\<exists>i c. best_adjacent_loop G m (geometries parts) cands b bs = Some i \<and> (i, c) \<in> set cands \<and>
      fully_valid G m parts c \<and> total_shared G parts c > bs \<and>
      (\<forall>j c'. (j, c') \<in> set cands \<longrightarrow> fully_valid G m parts c' \<longrightarrow>
          total_shared G parts c' \<le> total_shared G parts c))"
  (is "?keep cands b bs \<or> ?take cands b bs")
proof (induction cands arbitrary: b bs)
  case Nil
  then show ?case by simp
next
  case (Cons x cands)
  obtain idx cand where x: "x = (idx, cand)" by (cases x)
  let ?T = "total_shared G parts"
  let ?V = "fully_valid G m parts"
  show ?case
  proof (cases "?V cand \<and> ?T cand > bs")
    case True
    have step: "best_adjacent_loop G m (geometries parts) (x # cands) b bs =
        best_adjacent_loop G m (geometries parts) cands (Some idx) (?T cand)"
      using True cand_total_valid [of G m cand parts "?T cand"] by (simp add: x)
    from Cons.IH [of "Some idx" "?T cand"] show ?thesis
    proof
      assume k: "?keep cands (Some idx) (?T cand)"
      have "?take (x # cands) b bs"
      proof (intro exI conjI)
        show "best_adjacent_loop G m (geometries parts) (x # cands) b bs = Some idx"
          using k step by simp
        show "(idx, cand) \<in> set (x # cands)" by (simp add: x)
        show "?V cand" using True by simp
        show "?T cand > bs" using True by simp
        show "\<forall>j c'. (j, c') \<in> set (x # cands) \<longrightarrow> ?V c' \<longrightarrow> ?T c' \<le> ?T cand"
          using k by (auto simp: x)
      qed
      then show ?thesis ..
    next
      assume "?take cands (Some idx) (?T cand)"
      then obtain i c where t: "best_adjacent_loop G m (geometries parts) cands (Some idx) (?T cand) = Some i"
        "(i, c) \<in> set cands" "?V c" "?T c > ?T cand"
        "\<forall>j c'. (j, c') \<in> set cands \<longrightarrow> ?V c' \<longrightarrow> ?T c' \<le> ?T c"
        by blast
      have "?take (x # cands) b bs"
      proof (intro exI conjI)
        show "best_adjacent_loop G m (geometries parts) (x # cands) b bs = Some i"
          using t(1) step by simp
        show "(i, c) \<in> set (x # cands)" using t(2) by simp
        show "?V c" by (rule t(3))
        show "?T c > bs" using t(4) True by linarith
        show "\<forall>j c'. (j, c') \<in> set (x # cands) \<longrightarrow> ?V c' \<longrightarrow> ?T c' \<le> ?T c"
          using t(4,5) by (auto simp: x)
      qed
      then show ?thesis ..
    qed
  next
    case False
    have step: "best_adjacent_loop G m (geometries parts) (x # cands) b bs =
        best_adjacent_loop G m (geometries parts) cands b bs"
    proof (cases "cand_total G m (geometry cand) (geometries parts) 0")
      case None
      then show ?thesis by (simp add: x)
    next
      case (Some t)
      then have "?V cand" "t = ?T cand" using cand_total_valid [of G m cand parts t] by simp_all
      then have "\<not> t > bs" using False by simp
      then show ?thesis using Some by (simp add: x)
    qed
    have head: "?V cand \<longrightarrow> ?T cand \<le> bs" using False by auto
    from Cons.IH [of b bs] show ?thesis
    proof
      assume k: "?keep cands b bs"
      have "?keep (x # cands) b bs"
        using k step head by (auto simp: x)
      then show ?thesis ..
    next
      assume "?take cands b bs"
      then obtain i c where t: "best_adjacent_loop G m (geometries parts) cands b bs = Some i"
        "(i, c) \<in> set cands" "?V c" "?T c > bs"
        "\<forall>j c'. (j, c') \<in> set cands \<longrightarrow> ?V c' \<longrightarrow> ?T c' \<le> ?T c"
        by blast
      have "?take (x # cands) b bs"
      proof (intro exI conjI)
        show "best_adjacent_loop G m (geometries parts) (x # cands) b bs = Some i"
          using t(1) step by simp
        show "(i, c) \<in> set (x # cands)" using t(2) by simp
        show "?V c" by (rule t(3))
        show "?T c > bs" by (rule t(4))
        show "\<forall>j c'. (j, c') \<in> set (x # cands) \<longrightarrow> ?V c' \<longrightarrow> ?T c' \<le> ?T c"
          using t(4,5) head by (auto simp: x)
      qed
      then show ?thesis ..
    qed
  qed
qed

text \<open>
  C6, as the code has it. A label that the search returns is the label of a fully valid
  candidate (one that touches every part with a shared boundary of at least the threshold)
  whose total shared length no fully valid candidate of the pool exceeds. The search returns
  none exactly when no fully valid candidate has a positive total shared length (the loop
  starts from \<open>best_shared = 0.0\<close> and replaces the best only on a strictly greater
  total); in particular it returns none when no candidate is fully valid, and for a
  positive threshold and a group with at least one part it returns none exactly when no
  candidate is fully valid.
\<close>

theorem find_best_adjacent_polygon_spec:
  "(\<forall>i. find_best_adjacent_polygon G parts cands m = Some i \<longrightarrow>
      (\<exists>c. (i, c) \<in> set cands \<and> fully_valid G m parts c \<and>
         (\<forall>j c'. (j, c') \<in> set cands \<longrightarrow> fully_valid G m parts c' \<longrightarrow>
             total_shared G parts c' \<le> total_shared G parts c))) \<and>
   (find_best_adjacent_polygon G parts cands m = None \<longleftrightarrow>
      \<not> (\<exists>j c. (j, c) \<in> set cands \<and> fully_valid G m parts c \<and> 0 < total_shared G parts c)) \<and>
   (\<not> (\<exists>j c. (j, c) \<in> set cands \<and> fully_valid G m parts c) \<longrightarrow>
      find_best_adjacent_polygon G parts cands m = None) \<and>
   (0 < m \<and> parts \<noteq> [] \<longrightarrow>
      (find_best_adjacent_polygon G parts cands m = None \<longleftrightarrow>
         \<not> (\<exists>j c. (j, c) \<in> set cands \<and> fully_valid G m parts c)))"
proof -
  let ?r = "find_best_adjacent_polygon G parts cands m"
  let ?V = "fully_valid G m parts"
  let ?T = "total_shared G parts"
  have pos: "?T c > 0" if v: "?V c" and mpos: "0 < m" and ne: "parts \<noteq> []" for c
  proof -
    obtain p ps where ps: "geometries parts = p # ps"
      using ne by (cases parts) (auto simp: geometries_def)
    have all: "\<forall>g \<in> set ps. shared G (geometry c) g \<ge> 0" and hd: "shared G (geometry c) p \<ge> m"
      using v mpos by (auto simp: fully_valid_def ps intro: less_imp_le order_trans)
    have "sum_list (map (shared G (geometry c)) ps) \<ge> 0"
      using all by (intro sum_list_nonneg) auto
    then show ?thesis using hd mpos by (simp add: total_shared_def ps)
  qed
  have r: "best_adjacent_loop G m (geometries parts) cands None 0 = ?r"
    by (simp add: find_best_adjacent_polygon_def)
  note spec = best_adjacent_loop_spec [of G m parts cands None 0, unfolded r]
  have cases: thesis
    if "\<lbrakk>?r = None; \<forall>j c. (j, c) \<in> set cands \<longrightarrow> ?V c \<longrightarrow> ?T c \<le> 0\<rbrakk> \<Longrightarrow> thesis"
    and "\<And>i c. \<lbrakk>?r = Some i; (i, c) \<in> set cands; ?V c; 0 < ?T c;
      \<forall>j c'. (j, c') \<in> set cands \<longrightarrow> ?V c' \<longrightarrow> ?T c' \<le> ?T c\<rbrakk> \<Longrightarrow> thesis"
    for thesis
    using spec that by (elim disjE exE conjE) blast+
  show ?thesis
  proof (rule cases)
    assume keep: "?r = None" "\<forall>j c. (j, c) \<in> set cands \<longrightarrow> ?V c \<longrightarrow> ?T c \<le> 0"
    have nopos: "\<not> (\<exists>j c. (j, c) \<in> set cands \<and> ?V c \<and> 0 < ?T c)"
    proof
      assume "\<exists>j c. (j, c) \<in> set cands \<and> ?V c \<and> 0 < ?T c"
      then obtain j c where jc: "(j, c) \<in> set cands" "?V c" "0 < ?T c" by blast
      then have "?T c \<le> 0" using keep(2) by blast
      then show False using jc(3) by simp
    qed
    have novalid: "\<not> (\<exists>j c. (j, c) \<in> set cands \<and> ?V c)" if "0 < m" "parts \<noteq> []"
    proof
      assume "\<exists>j c. (j, c) \<in> set cands \<and> ?V c"
      then obtain j c where jc: "(j, c) \<in> set cands" "?V c" by blast
      then have "?T c \<le> 0" using keep(2) by blast
      then show False using pos [OF jc(2) that] by simp
    qed
    show ?thesis using keep(1) nopos novalid by simp
  next
    fix i c
    assume take: "?r = Some i" "(i, c) \<in> set cands" "?V c" "0 < ?T c"
      "\<forall>j c'. (j, c') \<in> set cands \<longrightarrow> ?V c' \<longrightarrow> ?T c' \<le> ?T c"
    have valid: "\<exists>j c. (j, c) \<in> set cands \<and> ?V c" using take(2,3) by blast
    have posv: "\<exists>j c. (j, c) \<in> set cands \<and> ?V c \<and> 0 < ?T c" using take(2,3,4) by blast
    have best: "\<exists>c. (i, c) \<in> set cands \<and> ?V c \<and>
        (\<forall>j c'. (j, c') \<in> set cands \<longrightarrow> ?V c' \<longrightarrow> ?T c' \<le> ?T c)"
      using take(2,3,5) by blast
    show ?thesis using take(1) valid posv best by simp
  qed
qed

text \<open>
  The theorem at a pool of two fully valid candidates, with totals 14 and 16, at the
  default threshold: the second is returned, and no fully valid candidate exceeds it.
\<close>

theorem find_best_adjacent_polygon_spec_witness:
  "(0::real) < 5 \<and> vertex_parts \<noteq> [] \<and>
   find_best_adjacent_polygon edge_ops vertex_parts edge_pool 5 = Some 1 \<and>
   (\<exists>c. (1, c) \<in> set edge_pool \<and> fully_valid edge_ops 5 vertex_parts c \<and>
      (\<forall>j c'. (j, c') \<in> set edge_pool \<longrightarrow> fully_valid edge_ops 5 vertex_parts c' \<longrightarrow>
          total_shared edge_ops vertex_parts c' \<le> total_shared edge_ops vertex_parts c)) \<and>
   (\<exists>j c. (j, c) \<in> set edge_pool \<and> fully_valid edge_ops 5 vertex_parts c \<and>
      0 < total_shared edge_ops vertex_parts c)"
proof -
  have ne: "vertex_parts \<noteq> []" by (simp add: vertex_parts_def)
  have r: "find_best_adjacent_polygon edge_ops vertex_parts edge_pool 5 = Some 1"
    by (simp add: find_best_adjacent_polygon_def edge_ops_def vertex_parts_def edge_pool_def
        table_ops_def mk_row_def geometries_def)
  from find_best_adjacent_polygon_spec [of edge_ops vertex_parts edge_pool 5] ne r
  show ?thesis by auto
qed

text \<open>
  The claim as the spec words it fails at a threshold of 0: the only candidate touches
  both parts (in a point each), so it is fully valid, and the search returns none.
\<close>

theorem find_best_returns_valid_counterexample:
  "(\<exists>j c. (j, c) \<in> set vertex_pool \<and> fully_valid vertex_ops 0 vertex_parts c) \<and>
   find_best_adjacent_polygon vertex_ops vertex_parts vertex_pool 0 = None"
  by (simp add: find_best_adjacent_polygon_def fully_valid_def vertex_ops_def vertex_parts_def
      vertex_pool_def table_ops_def mk_row_def geometries_def)

section \<open>Attribute merger: properties\<close>

lemma fold_add_sum_list:
  "fold (\<lambda>t acc. acc + f t) ts (a::real) = a + sum_list (map f ts)"
  by (induction ts arbitrary: a) (simp_all add: algebra_simps)

lemma counts_sum_eq:
  "counts_sum base_dup targets c = num base_dup c + sum_list (map (\<lambda>t. num t c) targets)"
  by (simp add: counts_sum_def fold_add_sum_list)

lemma merge_unfold:
  "merge_parts_and_targets cfg G st ((i0, p0) # others) (t0 # ts) orig =
     (case generate_new_id st orig of
        Inl e \<Rightarrow> Inl e
      | Inr (new_id, st') \<Rightarrow>
          Inr (t0\<lparr>geometry := fold (\<lambda>t g. union G g (geometry t)) (t0 # ts)
                                 (union_all G (geometries ((i0, p0) # others))),
                  poly_id := new_id,
                  orig_id := join ''_'' (orig_id p0 # map orig_id (t0 # ts)),
                  num := (\<lambda>c. if c \<in> set (avg_cols cfg)
                               then weighted_avg cfg p0 (t0 # ts) c
                               else if c \<in> set (count_cols cfg)
                               then counts_sum p0 (t0 # ts) c
                               else num t0 c),
                  was_multipart := Some 1,
                  comb_adj := Some (length (t0 # ts))\<rparr>, st'))"
  unfolding merge_parts_and_targets_def by (simp only: list.case prod.case)

lemma merge_parts_and_targets_Inr:
  assumes "merge_parts_and_targets cfg G st parts targets orig = Inr (row, st')"
  obtains i0 p0 others t0 ts new_id where
    "parts = (i0, p0) # others" and "targets = t0 # ts"
    and "generate_new_id st orig = Inr (new_id, st')"
    and "meta row = meta t0"
    and "\<forall>c. num row c = (if c \<in> set (avg_cols cfg) then weighted_avg cfg p0 targets c
                         else if c \<in> set (count_cols cfg) then counts_sum p0 targets c
                         else num t0 c)"
    and "comb_adj row = Some (length targets)"
    and "poly_id row = new_id"
proof -
  obtain i0 p0 others where p: "parts = (i0, p0) # others"
    using assms by (cases parts) (simp_all add: merge_parts_and_targets_def split_paired_all)
  obtain t0 ts where t: "targets = t0 # ts"
    using assms unfolding p by (cases targets) (simp_all add: merge_parts_and_targets_def)
  note m = assms [unfolded p t merge_unfold]
  obtain new_id st2 where g: "generate_new_id st orig = Inr (new_id, st2)"
    using m by (cases "generate_new_id st orig") (simp_all add: split_paired_all)
  from m have st2: "st2 = st'"
    and row: "row = t0\<lparr>geometry := fold (\<lambda>t g. union G g (geometry t)) (t0 # ts)
                                 (union_all G (geometries ((i0, p0) # others))),
                  poly_id := new_id,
                  orig_id := join ''_'' (orig_id p0 # map orig_id (t0 # ts)),
                  num := (\<lambda>c. if c \<in> set (avg_cols cfg)
                               then weighted_avg cfg p0 (t0 # ts) c
                               else if c \<in> set (count_cols cfg)
                               then counts_sum p0 (t0 # ts) c
                               else num t0 c),
                  was_multipart := Some 1,
                  comb_adj := Some (length (t0 # ts))\<rparr>"
    unfolding g by (simp_all only: sum.case prod.case sum.inject prod.inject)
  show thesis
  proof (rule that [OF p t])
    show "generate_new_id st orig = Inr (new_id, st')" using g st2 by simp
    show "meta row = meta t0" unfolding row by simp
    show "\<forall>c. num row c = (if c \<in> set (avg_cols cfg) then weighted_avg cfg p0 targets c
                         else if c \<in> set (count_cols cfg) then counts_sum p0 targets c
                         else num t0 c)"
      unfolding row t by simp
    show "comb_adj row = Some (length targets)" unfolding row t by simp
    show "poly_id row = new_id" unfolding row by simp
  qed
qed

lemma weighted_avg_cases:
  fixes cfg base_dup targets c
  defines "pb \<equiv> num base_dup (pop_col cfg)" and "pt \<equiv> pop_sum cfg targets"
  shows "(pt > 0 \<and> pb + pt > 0 \<longrightarrow>
            weighted_avg cfg base_dup targets c =
              (num base_dup c * pb + weighted_sum cfg c targets) / (pb + pt))"
    and "(pt = 0 \<longrightarrow> weighted_avg cfg base_dup targets c = num base_dup c)"
    and "(pb + pt \<le> 0 \<longrightarrow> weighted_avg cfg base_dup targets c = num base_dup c)"
proof -
  show "pt > 0 \<and> pb + pt > 0 \<longrightarrow>
            weighted_avg cfg base_dup targets c =
              (num base_dup c * pb + weighted_sum cfg c targets) / (pb + pt)"
    unfolding weighted_avg_def Let_def pb_def pt_def pop_sum_def weighted_sum_def
    by (simp add: add_divide_distrib)
  show "pt = 0 \<longrightarrow> weighted_avg cfg base_dup targets c = num base_dup c"
    unfolding weighted_avg_def Let_def pb_def pt_def pop_sum_def
    by auto
  show "pb + pt \<le> 0 \<longrightarrow> weighted_avg cfg base_dup targets c = num base_dup c"
    unfolding weighted_avg_def Let_def pb_def pt_def pop_sum_def
    by auto
qed

text \<open>
  C4, as the code has it. In the row that a merge returns, an averaged column is the
  population-weighted average in which the base is the first row of the group, with that
  row's own population as its weight and its own value as the base value (no total over
  the parts is formed), and every absorbed candidate weighs its own population. When the
  absorbed candidates' population sums to zero the column is the first part's value, and
  so it is when the combined population is not positive.
\<close>

theorem merge_weighted_average:
  assumes "merge_parts_and_targets cfg G st parts targets orig = Inr (row, st')"
    and "c \<in> set (avg_cols cfg)"
  shows "\<exists>i0 p0 others. parts = (i0, p0) # others \<and>
           (pop_sum cfg targets > 0 \<and> num p0 (pop_col cfg) + pop_sum cfg targets > 0 \<longrightarrow>
              num row c = (num p0 c * num p0 (pop_col cfg) + weighted_sum cfg c targets)
                            / (num p0 (pop_col cfg) + pop_sum cfg targets)) \<and>
           (pop_sum cfg targets = 0 \<longrightarrow> num row c = num p0 c) \<and>
           (num p0 (pop_col cfg) + pop_sum cfg targets \<le> 0 \<longrightarrow> num row c = num p0 c)"
proof -
  from assms(1) show ?thesis
  proof (rule merge_parts_and_targets_Inr)
    fix i0 p0 others t0 ts new_id
    assume p: "parts = (i0, p0) # others"
      and n: "\<forall>c. num row c = (if c \<in> set (avg_cols cfg) then weighted_avg cfg p0 targets c
                         else if c \<in> set (count_cols cfg) then counts_sum p0 targets c
                         else num t0 c)"
    have "num row c = weighted_avg cfg p0 targets c" using n assms(2) by simp
    then show ?thesis
      using p weighted_avg_cases [where cfg = cfg and targets = targets and base_dup = p0 and c = c]
      by simp
  qed
qed

text \<open>
  The spec's instance, with part rows that each carry the population 50 of the block: the
  merged value is 16.
\<close>

theorem merge_weighted_average_witness:
  "\<exists>row st'. merge_parts_and_targets default_config avg_ops empty_relabeller avg_parts_dup
                [avg_neighbour] ''7'' = Inr (row, st') \<and>
             ''prom_escolaridad18'' \<in> set (avg_cols default_config) \<and>
             num row ''prom_escolaridad18'' = 16"
proof -
  obtain row st' where m: "merge_parts_and_targets default_config avg_ops empty_relabeller
      avg_parts_dup [avg_neighbour] ''7'' = Inr (row, st')"
    by (simp add: merge_parts_and_targets_def generate_new_id_def avg_parts_dup_def
        empty_relabeller_def strip_last2_def max_default0_def Let_def)
  have c: "''prom_escolaridad18'' \<in> set (avg_cols default_config)"
    by (simp add: avg_cols_def default_config_def)
  from merge_weighted_average [OF m c]
  have "num row ''prom_escolaridad18'' = 16"
    by (simp add: avg_parts_dup_def avg_neighbour_def mk_row_def pop_sum_def weighted_sum_def
        default_config_def)
  with m c show ?thesis by blast
qed

text \<open>
  The claim as the spec words it takes the total population of the part-group as the base
  weight. With the population 50 split over the two parts (5 and 45), the group's total is
  50 and the spec's value is 16, but the merge weighs the base value with the first part's
  5 and returns 212/11.
\<close>

theorem merge_base_weight_counterexample:
  "pop_sum default_config (map snd avg_parts_split) = 50 \<and>
   group_weighted_avg default_config avg_parts_split [avg_neighbour] ''prom_escolaridad18'' = 16 \<and>
   (\<exists>row st'. merge_parts_and_targets default_config avg_ops empty_relabeller avg_parts_split
                 [avg_neighbour] ''7'' = Inr (row, st') \<and>
               num row ''prom_escolaridad18'' = 212 / 11)"
  by (simp add: merge_parts_and_targets_def generate_new_id_def avg_parts_split_def
      empty_relabeller_def strip_last2_def max_default0_def Let_def group_weighted_avg_def
      pop_sum_def weighted_sum_def weighted_avg_def avg_cols_def
      avg_neighbour_def mk_row_def default_config_def)

section \<open>Resolution orchestrator: properties\<close>

lemma merge_remaining_Some:
  assumes "merge_remaining_with_two_targets cfg G st parts pool orig = Inr (Some (row, used, st'))"
  obtains i1 i2 t1 t2 where
    "find_two_targets G (min_shared_len cfg) parts pool = Some (i1, i2)"
    and "loc pool i1 = Some t1" and "loc pool i2 = Some t2"
    and "merge_parts_and_targets cfg G st parts [t1, t2] orig = Inr (row, st')"
    and "used = [i1, i2]"
proof -
  obtain i1 i2 where f: "find_two_targets G (min_shared_len cfg) parts pool = Some (i1, i2)"
    using assms
    by (cases "find_two_targets G (min_shared_len cfg) parts pool")
       (auto simp: merge_remaining_with_two_targets_def)
  obtain t1 where l1: "loc pool i1 = Some t1"
    using assms f by (cases "loc pool i1") (auto simp: merge_remaining_with_two_targets_def)
  obtain t2 where l2: "loc pool i2 = Some t2"
    using assms f l1 by (cases "loc pool i2") (auto simp: merge_remaining_with_two_targets_def)
  have m: "merge_parts_and_targets cfg G st parts [t1, t2] orig = Inr (row, st')"
    and u: "used = [i1, i2]"
    using assms f l1 l2
    by (cases "merge_parts_and_targets cfg G st parts [t1, t2] orig";
        auto simp: merge_remaining_with_two_targets_def)+
  show thesis by (rule that [OF f l1 l2 m u])
qed

lemma merge_remaining_None:
  assumes "merge_remaining_with_two_targets cfg G st parts pool orig = Inr None"
  shows "find_two_targets G (min_shared_len cfg) parts pool = None"
  using assms unfolding merge_remaining_with_two_targets_def
  by (auto split: option.splits sum.splits prod.splits)

text \<open>The four ways in which one iteration of the loop ends without an error.\<close>

lemma resolve_group_cases:
  assumes "resolve_group cfg G pool orig parts a = Inr a'"
  obtains
    (direct) i0 p0 others where
      "are_parts_contiguous G parts (min_shared_len cfg)"
      "parts = (i0, p0) # others"
      "a' = a\<lparr>resolved_rows := resolved_rows a @
                 [p0\<lparr>geometry := union_all G (geometries parts), poly_id := orig,
                     was_multipart := Some 1, comb_adj := Some 0\<rparr>],
               consumed_dup_idx := consumed_dup_idx a @ index parts\<rparr>"
  | (single) i t row st' where
      "\<not> are_parts_contiguous G parts (min_shared_len cfg)"
      "find_best_adjacent_polygon G parts pool (min_shared_len cfg) = Some i"
      "loc pool i = Some t"
      "merge_parts_and_targets cfg G (obj a) parts [t] orig = Inr (row, st')"
      "a' = a\<lparr>resolved_rows := resolved_rows a @ [row],
               consumed_dup_idx := consumed_dup_idx a @ index parts,
               consumed_nondup_idx := consumed_nondup_idx a @ [i],
               obj := st'\<rparr>"
  | (pair) i1 i2 t1 t2 row st' where
      "\<not> are_parts_contiguous G parts (min_shared_len cfg)"
      "find_best_adjacent_polygon G parts pool (min_shared_len cfg) = None"
      "find_two_targets G (min_shared_len cfg) parts pool = Some (i1, i2)"
      "loc pool i1 = Some t1" "loc pool i2 = Some t2"
      "merge_parts_and_targets cfg G (obj a) parts [t1, t2] orig = Inr (row, st')"
      "a' = a\<lparr>resolved_rows := resolved_rows a @ [row],
               consumed_dup_idx := consumed_dup_idx a @ index parts,
               consumed_nondup_idx := consumed_nondup_idx a @ [i1, i2],
               obj := st'\<rparr>"
  | (unresolved)
      "\<not> are_parts_contiguous G parts (min_shared_len cfg)"
      "find_best_adjacent_polygon G parts pool (min_shared_len cfg) = None"
      "find_two_targets G (min_shared_len cfg) parts pool = None"
      "a' = a"
proof -
  note r = assms [unfolded resolve_group_def]
  show thesis
  proof (cases "are_parts_contiguous G parts (min_shared_len cfg)")
    case True
    obtain i0 p0 others where p: "parts = (i0, p0) # others"
      using r True by (cases parts) auto
    have "a' = a\<lparr>resolved_rows := resolved_rows a @
                 [p0\<lparr>geometry := union_all G (geometries parts), poly_id := orig,
                     was_multipart := Some 1, comb_adj := Some 0\<rparr>],
               consumed_dup_idx := consumed_dup_idx a @ index parts\<rparr>"
      using r True by (simp add: p)
    then show thesis by (rule direct [OF True p])
  next
    case nc: False
    show thesis
    proof (cases "find_best_adjacent_polygon G parts pool (min_shared_len cfg)")
      case (Some i)
      obtain t where l: "loc pool i = Some t"
        using r nc Some by (cases "loc pool i") auto
      obtain row st' where m: "merge_parts_and_targets cfg G (obj a) parts [t] orig = Inr (row, st')"
        using r nc Some l
        by (cases "merge_parts_and_targets cfg G (obj a) parts [t] orig") auto
      have "a' = a\<lparr>resolved_rows := resolved_rows a @ [row],
               consumed_dup_idx := consumed_dup_idx a @ index parts,
               consumed_nondup_idx := consumed_nondup_idx a @ [i],
               obj := st'\<rparr>"
        using r nc Some l m by simp
      then show thesis by (rule single [OF nc Some l m])
    next
      case None
      show thesis
      proof (cases "merge_remaining_with_two_targets cfg G (obj a) parts pool orig")
        case (Inl e)
        then show thesis using r nc None by simp
      next
        case (Inr res)
        show thesis
        proof (cases res)
          case no: None
          have f: "find_two_targets G (min_shared_len cfg) parts pool = None"
            using Inr no by (simp add: merge_remaining_None)
          have "a' = a" using r nc None Inr no by simp
          then show thesis by (rule unresolved [OF nc None f])
        next
          case (Some x)
          obtain row used st' where x: "x = (row, used, st')" by (cases x)
          have mr: "merge_remaining_with_two_targets cfg G (obj a) parts pool orig =
              Inr (Some (row, used, st'))"
            using Inr Some x by simp
          from mr obtain i1 i2 t1 t2 where
            f: "find_two_targets G (min_shared_len cfg) parts pool = Some (i1, i2)"
            and l: "loc pool i1 = Some t1" "loc pool i2 = Some t2"
            and m: "merge_parts_and_targets cfg G (obj a) parts [t1, t2] orig = Inr (row, st')"
            and u: "used = [i1, i2]"
            by (rule merge_remaining_Some)
          have "a' = a\<lparr>resolved_rows := resolved_rows a @ [row],
               consumed_dup_idx := consumed_dup_idx a @ index parts,
               consumed_nondup_idx := consumed_nondup_idx a @ [i1, i2],
               obj := st'\<rparr>"
            using r nc None mr u by simp
          then show thesis by (rule pair [OF nc None f l m])
        qed
      qed
    qed
  qed
qed

lemma resolve_group_direct:
  assumes "are_parts_contiguous G parts (min_shared_len cfg)" and "parts = (i0, p0) # others"
  shows "resolve_group cfg G pool orig parts a =
     Inr (a\<lparr>resolved_rows := resolved_rows a @
                 [p0\<lparr>geometry := union_all G (geometries parts), poly_id := orig,
                     was_multipart := Some 1, comb_adj := Some 0\<rparr>],
             consumed_dup_idx := consumed_dup_idx a @ index parts\<rparr>)"
  using assms(1) unfolding assms(2) by (simp add: resolve_group_def)

lemma resolve_group_single:
  assumes "\<not> are_parts_contiguous G parts (min_shared_len cfg)"
    and "find_best_adjacent_polygon G parts pool (min_shared_len cfg) = Some i"
    and "loc pool i = Some t"
    and "merge_parts_and_targets cfg G (obj a) parts [t] orig = Inr (row, st')"
  shows "resolve_group cfg G pool orig parts a =
     Inr (a\<lparr>resolved_rows := resolved_rows a @ [row],
             consumed_dup_idx := consumed_dup_idx a @ index parts,
             consumed_nondup_idx := consumed_nondup_idx a @ [i],
             obj := st'\<rparr>)"
  using assms by (simp add: resolve_group_def)

lemma absorbed_simps:
  "absorbed pool [] = []"
  "loc pool i = Some t \<Longrightarrow> absorbed pool (i # labels) = t # absorbed pool labels"
  by (simp_all add: absorbed_def map_filter_simps)

text \<open>
  C1, as the code has it. When one iteration of the loop resolves a group (by the direct
  union or by a merge with one or two neighbours) and appends the row \<open>row\<close>, every
  count column of \<open>row\<close> is the value of that column on the first part of the group plus
  its sum over the candidates absorbed in this iteration. The other parts of the group do
  not contribute.
\<close>

theorem resolved_group_counts:
  assumes "resolve_group cfg G pool orig parts a = Inr a'"
    and "resolved_rows a' = resolved_rows a @ [row]"
    and "c \<in> set (count_cols cfg)"
  shows "\<exists>i0 p0 others. parts = (i0, p0) # others \<and>
           num row c = num p0 c +
             sum_list (map (\<lambda>t. num t c)
               (absorbed pool (drop (length (consumed_nondup_idx a)) (consumed_nondup_idx a'))))"
proof -
  have navg: "c \<notin> set (avg_cols cfg)" using assms(3) by (simp add: avg_cols_def)
  have merged: "\<exists>i0 p0 others. parts = (i0, p0) # others \<and>
      num r c = num p0 c + sum_list (map (\<lambda>t. num t c) targets)"
    if "merge_parts_and_targets cfg G st parts targets orig = Inr (r, st')" for r st st' targets
    using that
  proof (rule merge_parts_and_targets_Inr)
    fix i0 p0 others t0 ts new_id
    assume p: "parts = (i0, p0) # others"
      and n: "\<forall>c. num r c = (if c \<in> set (avg_cols cfg) then weighted_avg cfg p0 targets c
                         else if c \<in> set (count_cols cfg) then counts_sum p0 targets c
                         else num t0 c)"
    have "num r c = counts_sum p0 targets c" using n navg assms(3) by simp
    then show ?thesis using p by (simp add: counts_sum_eq)
  qed
  from assms(1) show ?thesis
  proof (cases rule: resolve_group_cases)
    case (direct i0 p0 others)
    have "row = p0\<lparr>geometry := union_all G (geometries parts), poly_id := orig,
                     was_multipart := Some 1, comb_adj := Some 0\<rparr>"
      using assms(2) direct(3) by simp
    then have "num row c = num p0 c" by simp
    moreover have "consumed_nondup_idx a' = consumed_nondup_idx a" using direct(3) by simp
    ultimately show ?thesis using direct(2) by (simp add: absorbed_simps)
  next
    case (single i t r st')
    have row: "row = r" using assms(2) single(5) by simp
    have "drop (length (consumed_nondup_idx a)) (consumed_nondup_idx a') = [i]"
      using single(5) by simp
    then have "absorbed pool (drop (length (consumed_nondup_idx a)) (consumed_nondup_idx a')) = [t]"
      using single(3) by (simp add: absorbed_simps)
    then show ?thesis using merged [OF single(4)] row by simp
  next
    case (pair i1 i2 t1 t2 r st')
    have row: "row = r" using assms(2) pair(7) by simp
    have "drop (length (consumed_nondup_idx a)) (consumed_nondup_idx a') = [i1, i2]"
      using pair(7) by simp
    then have "absorbed pool (drop (length (consumed_nondup_idx a)) (consumed_nondup_idx a')) = [t1, t2]"
      using pair(4,5) by (simp add: absorbed_simps)
    then show ?thesis using merged [OF pair(6)] row by simp
  next
    case unresolved
    then show ?thesis using assms(2) by simp
  qed
qed

lemma avg_step:
  "\<exists>row st'. merge_parts_and_targets default_config avg_ops empty_relabeller avg_parts_dup
       [avg_neighbour] ''7'' = Inr (row, st') \<and>
     resolve_group default_config avg_ops avg_pool ''7'' avg_parts_dup empty_acc =
       Inr (empty_acc\<lparr>resolved_rows := resolved_rows empty_acc @ [row],
             consumed_dup_idx := consumed_dup_idx empty_acc @ index avg_parts_dup,
             consumed_nondup_idx := consumed_nondup_idx empty_acc @ [4],
             obj := st'\<rparr>)"
proof -
  obtain row st' where m: "merge_parts_and_targets default_config avg_ops empty_relabeller
      avg_parts_dup [avg_neighbour] ''7'' = Inr (row, st')"
    by (simp add: merge_parts_and_targets_def generate_new_id_def avg_parts_dup_def
        empty_relabeller_def strip_last2_def max_default0_def Let_def)
  have nc: "\<not> are_parts_contiguous avg_ops avg_parts_dup (min_shared_len default_config)"
    by (simp add: are_parts_contiguous_def avg_parts_dup_def avg_ops_def table_ops_def mk_row_def
        geometries_def default_config_def)
  have fb: "find_best_adjacent_polygon avg_ops avg_parts_dup avg_pool (min_shared_len default_config) = Some 4"
    by (simp add: find_best_adjacent_polygon_def avg_parts_dup_def avg_ops_def table_ops_def
        mk_row_def geometries_def default_config_def avg_pool_def avg_neighbour_def)
  have l: "loc avg_pool 4 = Some avg_neighbour" by (simp add: loc_def avg_pool_def)
  have o: "obj empty_acc = empty_relabeller" by (simp add: empty_acc_def)
  show ?thesis
    using resolve_group_single [OF nc fb l, where a = empty_acc and row = row and st' = st' and orig = "''7''"] m o by simp
qed

text \<open>
  The theorem at the merge of the example group (first part with population 50) with its
  neighbour of population 50: the merged row has population 100.
\<close>

theorem resolved_group_counts_witness:
  "\<exists>a' row. resolve_group default_config avg_ops avg_pool ''7'' avg_parts_dup empty_acc = Inr a' \<and>
     resolved_rows a' = resolved_rows empty_acc @ [row] \<and>
     ''n_per'' \<in> set (count_cols default_config) \<and>
     num row ''n_per'' = 100"
proof -
  from avg_step obtain row st' where
    s: "resolve_group default_config avg_ops avg_pool ''7'' avg_parts_dup empty_acc =
       Inr (empty_acc\<lparr>resolved_rows := resolved_rows empty_acc @ [row],
             consumed_dup_idx := consumed_dup_idx empty_acc @ index avg_parts_dup,
             consumed_nondup_idx := consumed_nondup_idx empty_acc @ [4],
             obj := st'\<rparr>)"
    by blast
  have c: "''n_per'' \<in> set (count_cols default_config)" by (simp add: default_config_def)
  have l: "loc avg_pool 4 = Some avg_neighbour" by (simp add: loc_def avg_pool_def)
  from resolved_group_counts [OF s _ c, where row = row]
  have "num row ''n_per'' = 100"
    by (simp add: absorbed_simps l avg_parts_dup_def avg_neighbour_def mk_row_def)
  with s c show ?thesis by auto
qed

text \<open>
  The claim as the spec words it takes the sum over all parts of the group. The direct
  union of two touching parts with populations 3 and 4 returns a row with population 3.
\<close>

theorem direct_union_counts_counterexample:
  "sum_list (map (\<lambda>(i, r). num r ''n_per'') direct_parts) = 7 \<and>
   (\<exists>a' row. resolve_group default_config abc_ops [] ''7'' direct_parts empty_acc = Inr a' \<and>
      resolved_rows a' = [row] \<and> num row ''n_per'' = 3)"
proof -
  have ct: "are_parts_contiguous abc_ops direct_parts (min_shared_len default_config)"
    by (simp add: are_parts_contiguous_def direct_parts_def abc_ops_def table_ops_def mk_row_def
        geometries_def default_config_def)
  have p: "direct_parts = (0, mk_row 1 ''7'' 3 0) # [(1, mk_row 2 ''7'' 4 0)]"
    by (simp add: direct_parts_def)
  have s: "sum_list (map (\<lambda>(i, r). num r ''n_per'') direct_parts) = 7"
    by (simp add: direct_parts_def mk_row_def)
  show ?thesis
    using resolve_group_direct [OF ct p, where pool = "[]" and orig = "''7''" and a = empty_acc] s
    by (simp add: empty_acc_def mk_row_def)
qed

text \<open>
  C10. When one iteration of the loop merges a group with one or two neighbours, the row
  it appends has every column that the merge does not recompute (the columns that are not
  numeric, such as commune, commune\_id and zone\_type, and the numeric columns outside
  \<open>num_cols\<close>) equal to that column of the first absorbed candidate, the pool row whose
  label is consumed first in this iteration.
\<close>

theorem merged_row_metadata:
  assumes "resolve_group cfg G pool orig parts a = Inr a'"
    and "resolved_rows a' = resolved_rows a @ [row]"
    and "consumed_nondup_idx a' = consumed_nondup_idx a @ i # others"
    and "set (count_cols cfg) \<subseteq> set (num_cols cfg)"
  shows "\<exists>t0. loc pool i = Some t0 \<and> meta row = meta t0 \<and>
           (\<forall>c. c \<notin> set (num_cols cfg) \<longrightarrow> num row c = num t0 c)"
proof -
  have merged: "meta r = meta t \<and> (\<forall>c. c \<notin> set (num_cols cfg) \<longrightarrow> num r c = num t c)"
    if "merge_parts_and_targets cfg G st parts (t # ts) orig = Inr (r, st')" for r st st' t ts
    using that
  proof (rule merge_parts_and_targets_Inr)
    fix i0 p0 others t0 ts' new_id
    assume t: "t # ts = t0 # ts'" and me: "meta r = meta t0"
      and n: "\<forall>c. num r c = (if c \<in> set (avg_cols cfg) then weighted_avg cfg p0 (t # ts) c
                         else if c \<in> set (count_cols cfg) then counts_sum p0 (t # ts) c
                         else num t0 c)"
    have "num r c = num t0 c" if "c \<notin> set (num_cols cfg)" for c
    proof -
      have "c \<notin> set (avg_cols cfg)" "c \<notin> set (count_cols cfg)"
        using that assms(4) by (auto simp: avg_cols_def)
      then show ?thesis using n by simp
    qed
    then show ?thesis using t me by simp
  qed
  from assms(1) show ?thesis
  proof (cases rule: resolve_group_cases)
    case (direct i0 p0 others)
    then show ?thesis using assms(3) by simp
  next
    case (single j t r st')
    have "row = r" "i = j" using assms(2,3) single(5) by simp_all
    then show ?thesis using merged [OF single(4)] single(3) by simp
  next
    case (pair i1 i2 t1 t2 r st')
    have "row = r" "i = i1" using assms(2,3) pair(7) by simp_all
    then show ?thesis using merged [OF pair(6)] pair(4) by simp
  next
    case unresolved
    then show ?thesis using assms(3) by simp
  qed
qed

text \<open>
  The theorem at the merge of the example group with its neighbour: the merged row has
  the neighbour's commune.
\<close>

theorem merged_row_metadata_witness:
  "\<exists>a' row. resolve_group default_config avg_ops avg_pool ''7'' avg_parts_dup empty_acc = Inr a' \<and>
     resolved_rows a' = resolved_rows empty_acc @ [row] \<and>
     consumed_nondup_idx a' = consumed_nondup_idx empty_acc @ 4 # [] \<and>
     set (count_cols default_config) \<subseteq> set (num_cols default_config) \<and>
     meta row ''commune'' = Some ''PUENTE ALTO''"
proof -
  from avg_step obtain row st' where
    s: "resolve_group default_config avg_ops avg_pool ''7'' avg_parts_dup empty_acc =
       Inr (empty_acc\<lparr>resolved_rows := resolved_rows empty_acc @ [row],
             consumed_dup_idx := consumed_dup_idx empty_acc @ index avg_parts_dup,
             consumed_nondup_idx := consumed_nondup_idx empty_acc @ [4],
             obj := st'\<rparr>)"
    by blast
  have c: "set (count_cols default_config) \<subseteq> set (num_cols default_config)"
    by (simp add: default_config_def)
  have l: "loc avg_pool 4 = Some avg_neighbour" by (simp add: loc_def avg_pool_def)
  from merged_row_metadata [OF s _ _ c, where row = row and i = 4 and others = "[]"]
  have "meta row ''commune'' = Some ''PUENTE ALTO''"
    by (simp add: l avg_neighbour_def)
  with s c show ?thesis by auto
qed

lemma resolve_loop_Cons:
  "resolve_loop cfg G pool ((orig, parts) # rest) a =
     (case resolve_group cfg G pool orig parts a of
        Inl e \<Rightarrow> Inl e
      | Inr a' \<Rightarrow> resolve_loop cfg G pool rest a')"
  by (simp add: resolve_group_def split: list.split option.split sum.split prod.split)

lemma resolve_group_consumed:
  assumes "resolve_group cfg G pool orig parts a = Inr a'"
  shows "consumed_nondup_idx a' =
           consumed_nondup_idx a @ group_choice G (min_shared_len cfg) parts pool"
  using assms
proof (cases rule: resolve_group_cases)
  case (direct i0 p0 others)
  then show ?thesis by (simp add: group_choice_def)
next
  case (single i t row st')
  then show ?thesis by (simp add: group_choice_def)
next
  case (pair i1 i2 t1 t2 row st')
  then show ?thesis by (simp add: group_choice_def)
next
  case unresolved
  then show ?thesis by (simp add: group_choice_def)
qed

lemma resolve_loop_consumed:
  "resolve_loop cfg G pool groups a = Inr a' \<Longrightarrow>
   consumed_nondup_idx a' =
     consumed_nondup_idx a @
       concat (map (\<lambda>(orig, parts). group_choice G (min_shared_len cfg) parts pool) groups)"
proof (induction groups arbitrary: a)
  case Nil
  then show ?case by simp
next
  case (Cons g groups)
  obtain orig parts where g: "g = (orig, parts)" by (cases g)
  from Cons.prems obtain a1 where
    s: "resolve_group cfg G pool orig parts a = Inr a1"
    and r: "resolve_loop cfg G pool groups a1 = Inr a'"
    unfolding g resolve_loop_Cons
    by (cases "resolve_group cfg G pool orig parts a") simp_all
  show ?case
    using Cons.IH [OF r] resolve_group_consumed [OF s] by (simp add: g)
qed

text \<open>
  In a run, the labels consumed from the candidate pool are, group after group in the
  order of the loop, the labels that each group takes when it is resolved against the whole
  pool the run was called with. The output is made of the pool rows whose label was not
  consumed, followed by the resolved rows.
\<close>

lemma run_consumed_labels:
  assumes "resolve_multipart_by_contiguity cfg G st dup pool = Inr (out, remaining_dup, a)"
  shows "consumed_nondup_idx a =
           concat (map (\<lambda>(orig, parts). group_choice G (min_shared_len cfg) parts pool)
                     (groupby_orig dup)) \<and>
         out = map (\<lambda>r. (select_cols r)\<lparr>poly_id := final_id (poly_id r)\<rparr>)
                 (map snd (filter (\<lambda>(i, r). i \<notin> set (consumed_nondup_idx a)) pool)
                  @ resolved_rows a)"
proof -
  let ?a0 = "\<lparr>resolved_rows = [], consumed_dup_idx = [], consumed_nondup_idx = [], obj = st\<rparr>"
  from assms obtain a1 where l: "resolve_loop cfg G pool (groupby_orig dup) ?a0 = Inr a1"
    unfolding resolve_multipart_by_contiguity_def
    by (cases "resolve_loop cfg G pool (groupby_orig dup) ?a0") simp_all
  from assms l have a: "a = a1"
    and o: "out = map (\<lambda>r. (select_cols r)\<lparr>poly_id := final_id (poly_id r)\<rparr>)
                 (map snd (drop_index pool (consumed_nondup_idx a1)) @ resolved_rows a1)"
    unfolding resolve_multipart_by_contiguity_def by (auto simp: Let_def)
  show ?thesis
    using resolve_loop_consumed [OF l] a o by (simp add: drop_index_def)
qed

lemma replicate_small:
  "replicate 1 x = [x]" "replicate 2 x = [x, x]" "replicate 3 x = [x, x, x]"
  by (simp_all add: numeral_2_eq_2 numeral_3_eq_3)

lemma merge_single_ex:
  assumes "generate_new_id st orig = Inr (nid, st')" and "parts \<noteq> []"
  shows "\<exists>row. merge_parts_and_targets cfg G st parts [t] orig = Inr (row, st') \<and>
           poly_id row = nid"
proof -
  obtain i0 p0 others where "parts = (i0, p0) # others"
    using assms(2) by (cases parts) auto
  then show ?thesis by (simp add: merge_unfold assms(1))
qed

lemma merge_single_row:
  assumes "generate_new_id st orig = Inr (nid, st')" and "parts = (i0, p0) # others"
  shows "\<exists>row. merge_parts_and_targets cfg G st parts [t] orig = Inr (row, st') \<and>
           poly_id row = nid \<and>
           geometry row = union G (union_all G (geometries parts)) (geometry t) \<and>
           (\<forall>c \<in> set (count_cols cfg). num row c = num p0 c + num t c)"
  unfolding assms(2) by (simp add: merge_unfold assms(1) avg_cols_def counts_sum_def)

lemma groupby_shared:
  "groupby_orig shared_dup =
     [(''6'', [(0, mk_row 1 ''6'' 10 0), (1, mk_row 2 ''6'' 10 0)]),
      (''7'', [(2, mk_row 3 ''7'' 10 0), (3, mk_row 4 ''7'' 10 0)])]"
  by (simp add: groupby_orig_def shared_dup_def mk_row_def)

text \<open>
  C2 at a run that the code can receive: two groups that share their only neighbour. The
  candidate with label 0 (polygon 9, population 10) is absorbed by the first group and
  again by the second: both searches are made over the pool the run was called with, and
  the candidate is dropped from it only after the loop. Polygon 9 is part of both output
  geometries and its population is counted in both output rows.
\<close>

theorem shared_neighbour_absorbed_twice:
  "\<exists>out remaining_dup a row1 row2.
     resolve_multipart_by_contiguity default_config shared_ops empty_relabeller shared_dup shared_pool
       = Inr (out, remaining_dup, a) \<and>
     consumed_nondup_idx a = [0, 0] \<and> resolved_rows a = [row1, row2] \<and>
     geometry row1 = [1, 2, 9] \<and> geometry row2 = [3, 4, 9] \<and>
     num row1 ''n_per'' = 20 \<and> num row2 ''n_per'' = 20"
proof -
  let ?p6 = "[(0, mk_row 1 ''6'' 10 0), (1, mk_row 2 ''6'' 10 0)] :: (nat list) frame"
  let ?p7 = "[(2, mk_row 3 ''7'' 10 0), (3, mk_row 4 ''7'' 10 0)] :: (nat list) frame"
  let ?st1 = "\<lparr>data_ids = [], generated_ids = [''001'']\<rparr>"
  let ?st2 = "\<lparr>data_ids = [], generated_ids = [''001'', ''002'']\<rparr>"
  have m: "min_shared_len default_config = 5" by (simp add: default_config_def)
  have cc: "''n_per'' \<in> set (count_cols default_config)" by (simp add: default_config_def)
  have nc6: "\<not> are_parts_contiguous shared_ops ?p6 (min_shared_len default_config)"
    by (simp add: m are_parts_contiguous_def shared_ops_def table_ops_def mk_row_def geometries_def)
  have nc7: "\<not> are_parts_contiguous shared_ops ?p7 (min_shared_len default_config)"
    by (simp add: m are_parts_contiguous_def shared_ops_def table_ops_def mk_row_def geometries_def)
  have fb6: "find_best_adjacent_polygon shared_ops ?p6 shared_pool (min_shared_len default_config) = Some 0"
    by (simp add: m find_best_adjacent_polygon_def shared_ops_def table_ops_def mk_row_def
        geometries_def shared_pool_def)
  have fb7: "find_best_adjacent_polygon shared_ops ?p7 shared_pool (min_shared_len default_config) = Some 0"
    by (simp add: m find_best_adjacent_polygon_def shared_ops_def table_ops_def mk_row_def
        geometries_def shared_pool_def)
  have l: "loc shared_pool 0 = Some (mk_row 9 ''8'' 10 0)" by (simp add: loc_def shared_pool_def)
  have g1: "generate_new_id empty_relabeller ''6'' = Inr (''001'', ?st1)"
    by (simp add: generate_new_id_def empty_relabeller_def strip_last2_def max_default0_def
        Let_def zfill_def str_nat.simps digit_char_def replicate_small)
  have g2: "generate_new_id ?st1 ''7'' = Inr (''002'', ?st2)"
    by (simp add: generate_new_id_def strip_last2_def max_default0_def startswith_def last3_def
        py_int_def digit_val_def Let_def zfill_def str_nat.simps digit_char_def replicate_small)
  from merge_single_row [OF g1 refl, where cfg = default_config and G = shared_ops
      and t = "mk_row 9 ''8'' 10 0" and ?i0.0 = 0 and ?p0.0 = "mk_row 1 ''6'' 10 0"
      and others = "[(1, mk_row 2 ''6'' 10 0)]"]
  obtain row1 where
    m1: "merge_parts_and_targets default_config shared_ops (obj empty_acc) ?p6 [mk_row 9 ''8'' 10 0] ''6''
           = Inr (row1, ?st1)"
    and ge1: "geometry row1 = [1, 2, 9]"
    and n1: "num row1 ''n_per'' = 20"
    using cc by (auto simp: empty_acc_def shared_ops_def table_ops_def geometries_def mk_row_def)
  let ?a1 = "empty_acc\<lparr>resolved_rows := resolved_rows empty_acc @ [row1],
             consumed_dup_idx := consumed_dup_idx empty_acc @ index ?p6,
             consumed_nondup_idx := consumed_nondup_idx empty_acc @ [0],
             obj := ?st1\<rparr>"
  have s1: "resolve_group default_config shared_ops shared_pool ''6'' ?p6 empty_acc = Inr ?a1"
    by (rule resolve_group_single [OF nc6 fb6 l m1])
  from merge_single_row [OF g2 refl, where cfg = default_config and G = shared_ops
      and t = "mk_row 9 ''8'' 10 0" and ?i0.0 = 2 and ?p0.0 = "mk_row 3 ''7'' 10 0"
      and others = "[(3, mk_row 4 ''7'' 10 0)]"]
  obtain row2 where
    m2: "merge_parts_and_targets default_config shared_ops (obj ?a1) ?p7 [mk_row 9 ''8'' 10 0] ''7''
           = Inr (row2, ?st2)"
    and ge2: "geometry row2 = [3, 4, 9]"
    and n2: "num row2 ''n_per'' = 20"
    using cc by (auto simp: shared_ops_def table_ops_def geometries_def mk_row_def)
  let ?a2 = "?a1\<lparr>resolved_rows := resolved_rows ?a1 @ [row2],
             consumed_dup_idx := consumed_dup_idx ?a1 @ index ?p7,
             consumed_nondup_idx := consumed_nondup_idx ?a1 @ [0],
             obj := ?st2\<rparr>"
  have s2: "resolve_group default_config shared_ops shared_pool ''7'' ?p7 ?a1 = Inr ?a2"
    by (rule resolve_group_single [OF nc7 fb7 l m2])
  have lp: "resolve_loop default_config shared_ops shared_pool (groupby_orig shared_dup)
       \<lparr>resolved_rows = [], consumed_dup_idx = [], consumed_nondup_idx = [],
        obj = empty_relabeller\<rparr> = Inr ?a2"
    unfolding groupby_shared resolve_loop_Cons
    using s1 s2 by (simp add: empty_acc_def)
  have "resolve_multipart_by_contiguity default_config shared_ops empty_relabeller shared_dup
      shared_pool =
      Inr (map (\<lambda>r. (select_cols r)\<lparr>poly_id := final_id (poly_id r)\<rparr>)
             (map snd (drop_index shared_pool (consumed_nondup_idx ?a2)) @ resolved_rows ?a2),
           drop_index shared_dup (consumed_dup_idx ?a2), ?a2)"
    unfolding resolve_multipart_by_contiguity_def lp by (simp add: Let_def)
  moreover have "consumed_nondup_idx ?a2 = [0, 0] \<and> resolved_rows ?a2 = [row1, row2]"
    by (simp add: empty_acc_def)
  ultimately show ?thesis using ge1 ge2 n1 n2 by blast
qed
section \<open>Identifiers: properties\<close>

lemma final_id_length: "length (final_id s) = 15"
  by (simp add: final_id_def ljust_def)

lemma clash_generate:
  "generate_new_id clash_state ''13110011001005'' =
     Inr (''131100110010010'', clash_state\<lparr>generated_ids := [''131100110010010'']\<rparr>)"
  by (simp add: generate_new_id_def clash_state_def strip_last2_def max_default0_def
      startswith_def last3_def py_int_def digit_val_def Let_def zfill_def str_nat.simps
      digit_char_def replicate_small)

text \<open>
  C3 at a run that the code can receive. The group 13110011001005 is merged with its
  neighbour 13110011001009; the allocator scans the identifiers in use with the prefix
  131100110010, finds the suffixes 1, 9 and 5, and allocates 131100110010010. The
  untouched block 13110011001001 is padded to fifteen characters, 131100110010010: the two
  output records have the same final identifier.
\<close>

theorem final_ids_clash:
  "\<exists>out remaining_dup a.
     resolve_multipart_by_contiguity default_config clash_ops clash_state clash_dup clash_pool
       = Inr (out, remaining_dup, a) \<and>
     map poly_id out = [''131100110010010'', ''131100110010010''] \<and>
     \<not> distinct (map poly_id out)"
proof -
  have m: "min_shared_len default_config = 5" by (simp add: default_config_def)
  have gb: "groupby_orig clash_dup = [(''13110011001005'', clash_dup)]"
    by (simp add: groupby_orig_def clash_dup_def mk_row_def)
  have nc: "\<not> are_parts_contiguous clash_ops clash_dup (min_shared_len default_config)"
    by (simp add: m are_parts_contiguous_def clash_ops_def clash_dup_def table_ops_def mk_row_def
        geometries_def)
  have fb: "find_best_adjacent_polygon clash_ops clash_dup clash_pool (min_shared_len default_config)
      = Some 1"
    by (simp add: m find_best_adjacent_polygon_def clash_ops_def clash_dup_def table_ops_def
        mk_row_def geometries_def clash_pool_def)
  have l: "loc clash_pool 1 = Some (mk_row 11 ''13110011001009'' 10 0)"
    by (simp add: loc_def clash_pool_def)
  have ne: "clash_dup \<noteq> []" by (simp add: clash_dup_def)
  let ?a0 = "\<lparr>resolved_rows = [], consumed_dup_idx = [], consumed_nondup_idx = [],
              obj = clash_state\<rparr> :: (nat list) run_acc"
  let ?st1 = "clash_state\<lparr>generated_ids := [''131100110010010'']\<rparr>"
  from merge_single_ex [OF clash_generate ne, where cfg = default_config and G = clash_ops
      and t = "mk_row 11 ''13110011001009'' 10 0"]
  obtain row where
    mg: "merge_parts_and_targets default_config clash_ops (obj ?a0) clash_dup
           [mk_row 11 ''13110011001009'' 10 0] ''13110011001005'' = Inr (row, ?st1)"
    and pid: "poly_id row = ''131100110010010''"
    by auto
  let ?a1 = "?a0\<lparr>resolved_rows := resolved_rows ?a0 @ [row],
             consumed_dup_idx := consumed_dup_idx ?a0 @ index clash_dup,
             consumed_nondup_idx := consumed_nondup_idx ?a0 @ [1],
             obj := ?st1\<rparr>"
  have s: "resolve_group default_config clash_ops clash_pool ''13110011001005'' clash_dup ?a0
      = Inr ?a1"
    by (rule resolve_group_single [OF nc fb l mg])
  have lp: "resolve_loop default_config clash_ops clash_pool (groupby_orig clash_dup) ?a0 = Inr ?a1"
    unfolding gb using s by (simp only: resolve_group_def)
  let ?out = "map (\<lambda>r. (select_cols r)\<lparr>poly_id := final_id (poly_id r)\<rparr>)
             (map snd (drop_index clash_pool (consumed_nondup_idx ?a1)) @ resolved_rows ?a1)"
  have r: "resolve_multipart_by_contiguity default_config clash_ops clash_state clash_dup clash_pool
      = Inr (?out, drop_index clash_dup (consumed_dup_idx ?a1), ?a1)"
    unfolding resolve_multipart_by_contiguity_def lp by (simp add: Let_def)
  have ids: "map poly_id ?out = [''131100110010010'', ''131100110010010'']"
    by (simp add: drop_index_def clash_pool_def select_cols_def pid final_id_def ljust_def
        mk_row_def replicate_small)
  have nd: "\<not> distinct (map poly_id ?out)" unfolding ids by simp
  show ?thesis
    by (rule exI [of _ ?out], rule exI [of _ "drop_index clash_dup (consumed_dup_idx ?a1)"],
        rule exI [of _ ?a1], intro conjI) (fact r, fact ids, fact nd)
qed

lemma wide_str: "str_int 100000000000000 = ''100000000000000''"
  by (simp add: str_int_def str_nat.simps digit_char_def)

text \<open>
  C9. The plain relabel of a block with a fifteen-digit identifier and two parts returns
  identifiers of seventeen characters (the identifier, the suffix 01 or 02, and no padding:
  \<^verbatim>\<open>ljust\<close> never shortens). The identifiers of the tier-resolution path are cut to
  fifteen characters and padded to fifteen, so they always have fifteen characters.
\<close>

theorem identifier_widths:
  "map poly_id (relabel_multipart_blocks 16 identify_multipart_polygons wide_input) =
     [''10000000000000001'', ''10000000000000002''] \<and>
   map (\<lambda>r. length (poly_id r)) (relabel_multipart_blocks 16 identify_multipart_polygons wide_input) =
     [17, 17] \<and>
   (\<forall>s. length (final_id s) = 15)"
proof -
  have ids: "map poly_id (relabel_multipart_blocks 16 identify_multipart_polygons wide_input) =
     [''10000000000000001'', ''10000000000000002'']"
    by (simp add: relabel_multipart_blocks_def identify_multipart_polygons_def wide_input_def
        wide_str mk_row_def Let_def zfill_def str_nat.simps digit_char_def strip_last2_def
        ljust_def replicate_small)
  have "map (\<lambda>r. length (poly_id r)) (relabel_multipart_blocks 16 identify_multipart_polygons wide_input)
      = map length (map poly_id (relabel_multipart_blocks 16 identify_multipart_polygons wide_input))"
    by (simp add: comp_def)
  also have "\<dots> = [17, 17]" unfolding ids by simp
  finally show ?thesis using ids final_id_length by blast
qed

section \<open>Two-neighbour search: properties\<close>

lemma in_pairs_from:
  "(x, y) \<in> set (pairs_from xs) \<longleftrightarrow> (\<exists>a b. a < b \<and> b < length xs \<and> xs ! a = x \<and> xs ! b = y)"
proof (induction xs)
  case Nil
  then show ?case by simp
next
  case (Cons z zs)
  have "(x, y) \<in> set (pairs_from (z # zs)) \<longleftrightarrow>
      (x = z \<and> y \<in> set zs) \<or> (\<exists>a b. a < b \<and> b < length zs \<and> zs ! a = x \<and> zs ! b = y)"
    using Cons.IH by auto
  also have "\<dots> \<longleftrightarrow> (\<exists>a b. a < b \<and> b < length (z # zs) \<and> (z # zs) ! a = x \<and> (z # zs) ! b = y)"
  proof
    assume "(x = z \<and> y \<in> set zs) \<or> (\<exists>a b. a < b \<and> b < length zs \<and> zs ! a = x \<and> zs ! b = y)"
    then show "\<exists>a b. a < b \<and> b < length (z # zs) \<and> (z # zs) ! a = x \<and> (z # zs) ! b = y"
    proof
      assume h: "x = z \<and> y \<in> set zs"
      then obtain j where "j < length zs" "zs ! j = y" by (auto simp: in_set_conv_nth)
      then have "0 < Suc j \<and> Suc j < length (z # zs) \<and> (z # zs) ! 0 = x \<and> (z # zs) ! Suc j = y"
        using h by simp
      then show ?thesis by blast
    next
      assume "\<exists>a b. a < b \<and> b < length zs \<and> zs ! a = x \<and> zs ! b = y"
      then obtain a b where "a < b" "b < length zs" "zs ! a = x" "zs ! b = y" by blast
      then have "Suc a < Suc b \<and> Suc b < length (z # zs) \<and> (z # zs) ! Suc a = x \<and> (z # zs) ! Suc b = y"
        by simp
      then show ?thesis by blast
    qed
  next
    assume "\<exists>a b. a < b \<and> b < length (z # zs) \<and> (z # zs) ! a = x \<and> (z # zs) ! b = y"
    then obtain a b where ab: "a < b" "b < length (z # zs)" "(z # zs) ! a = x" "(z # zs) ! b = y"
      by blast
    then obtain b' where b': "b = Suc b'" by (cases b) auto
    show "(x = z \<and> y \<in> set zs) \<or> (\<exists>a b. a < b \<and> b < length zs \<and> zs ! a = x \<and> zs ! b = y)"
    proof (cases a)
      case 0
      then show ?thesis using ab b' by auto
    next
      case (Suc a')
      then have "a' < b' \<and> b' < length zs \<and> zs ! a' = x \<and> zs ! b' = y" using ab b' by auto
      then show ?thesis by blast
    qed
  qed
  finally show ?case .
qed

lemma pairs_from_filter:
  "pairs_from (filter P xs) = filter (\<lambda>(x, y). P x \<and> P y) (pairs_from xs)"
proof (induction xs)
  case Nil
  then show ?case by simp
next
  case (Cons z zs)
  have "filter (\<lambda>(x, y). P x \<and> P y) (map (Pair z) zs) =
      (if P z then map (Pair z) (filter P zs) else [])"
    by (induction zs) auto
  then show ?case using Cons.IH by simp
qed

lemma pairs_from_map:
  "pairs_from (map f xs) = map (\<lambda>(x, y). (f x, f y)) (pairs_from xs)"
  by (induction xs) auto

lemma pairs_inner_concat:
  "pairs_inner G m parts x rest = concat (map (pair_entry G m parts x) rest)"
proof (induction rest)
  case Nil
  then show ?case by simp
next
  case (Cons y rest)
  obtain idx1 cand1 tp1 where x: "x = (idx1, cand1, tp1)" by (cases x)
  obtain idx2 cand2 tp2 where y: "y = (idx2, cand2, tp2)" by (cases y)
  show ?case using Cons.IH unfolding x y by (simp add: pair_entry_def)
qed

lemma pairs_outer_concat:
  "pairs_outer G m parts xs =
     concat (map (\<lambda>(x, y). pair_entry G m parts x y) (pairs_from xs))"
proof (induction xs)
  case Nil
  then show ?case by simp
next
  case (Cons x xs)
  have "concat (map (\<lambda>(x, y). pair_entry G m parts x y) (map (Pair x) xs)) =
      concat (map (pair_entry G m parts x) xs)"
    by (simp add: comp_def)
  then show ?case using Cons.IH by (simp add: pairs_inner_concat)
qed

lemma touching_parts_set:
  "set (touching_parts G c parts) =
     fst ` {p \<in> set parts. touches G (geometry c) (geometry (snd p))}"
  by (auto simp: touching_parts_def split_beta)

lemma touching_cover:
  assumes "distinct (index parts)"
  shows "set (touching_parts G c1 parts) \<union> set (touching_parts G c2 parts) = set (index parts) \<longleftrightarrow>
         (\<forall>p \<in> set parts. touches G (geometry c1) (geometry (snd p)) \<or>
                            touches G (geometry c2) (geometry (snd p)))"
proof
  assume eq: "set (touching_parts G c1 parts) \<union> set (touching_parts G c2 parts) = set (index parts)"
  show "\<forall>p \<in> set parts. touches G (geometry c1) (geometry (snd p)) \<or>
                            touches G (geometry c2) (geometry (snd p))"
  proof
    fix p assume p: "p \<in> set parts"
    then have "fst p \<in> set (index parts)" by (simp add: index_def)
    then have "fst p \<in> set (touching_parts G c1 parts) \<union> set (touching_parts G c2 parts)"
      using eq by simp
    then obtain q where q: "q \<in> set parts" "fst q = fst p"
      "touches G (geometry c1) (geometry (snd q)) \<or> touches G (geometry c2) (geometry (snd q))"
      unfolding touching_parts_set by auto
    have "q = p"
      using assms q(1,2) p unfolding index_def
      by (metis distinct_map inj_onD)
    then show "touches G (geometry c1) (geometry (snd p)) \<or> touches G (geometry c2) (geometry (snd p))"
      using q(3) by simp
  qed
next
  assume all: "\<forall>p \<in> set parts. touches G (geometry c1) (geometry (snd p)) \<or>
                            touches G (geometry c2) (geometry (snd p))"
  show "set (touching_parts G c1 parts) \<union> set (touching_parts G c2 parts) = set (index parts)"
  proof
    show "set (touching_parts G c1 parts) \<union> set (touching_parts G c2 parts) \<subseteq> set (index parts)"
      unfolding touching_parts_set index_def by auto
    show "set (index parts) \<subseteq> set (touching_parts G c1 parts) \<union> set (touching_parts G c2 parts)"
    proof
      fix i assume "i \<in> set (index parts)"
      then obtain p where p: "p \<in> set parts" "fst p = i" by (auto simp: index_def)
      then show "i \<in> set (touching_parts G c1 parts) \<union> set (touching_parts G c2 parts)"
        using all unfolding touching_parts_set by blast
    qed
  qed
qed

lemma shared_with_touching_parts:
  assumes "distinct (index parts)"
  shows "shared_with_parts G parts c (touching_parts G c parts) = shared_touched G parts c"
proof -
  let ?P = "\<lambda>p. touches G (geometry c) (geometry (snd p))"
  have d: "distinct (map fst (filter ?P parts))"
    using assms unfolding index_def by (simp add: distinct_map_filter)
  have tp: "touching_parts G c parts = map fst (filter ?P parts)"
    using d by (simp add: touching_parts_def case_prod_unfold distinct_remdups_id)
  have look: "(case loc parts (fst p) of Some part \<Rightarrow> shared G (geometry c) (geometry part) | None \<Rightarrow> 0)
      = shared G (geometry c) (geometry (snd p))" if "p \<in> set (filter ?P parts)" for p
  proof -
    have "(fst p, snd p) \<in> set parts" using that by simp
    moreover have "distinct (map fst parts)" using assms by (simp add: index_def)
    ultimately have "map_of parts (fst p) = Some (snd p)"
      by (simp only: map_of_eq_Some_iff)
    then show ?thesis by (simp add: loc_def)
  qed
  show ?thesis
    unfolding shared_with_parts_def shared_touched_def tp map_map comp_def
    using look by (intro arg_cong [where f = sum_list] map_cong) auto
qed

lemma pair_entry_touching:
  assumes "distinct (index parts)"
  shows "pair_entry G m parts (i1, c1, touching_parts G c1 parts) (i2, c2, touching_parts G c2 parts) =
     (if touches G (geometry c1) (geometry c2) \<and> shared G (geometry c1) (geometry c2) \<ge> m \<and>
         (\<forall>p \<in> set parts. touches G (geometry c1) (geometry (snd p)) \<or>
                            touches G (geometry c2) (geometry (snd p)))
      then [(i1, i2, fst (pair_score G parts c1 c2), snd (pair_score G parts c1 c2))]
      else [])"
  unfolding pair_entry_def
  by (simp add: touching_cover [OF assms] shared_with_touching_parts [OF assms] pair_score_def
      not_less)

lemma in_valid_pairs_entry:
  "w \<in> set (valid_pairs G m parts pool) \<longleftrightarrow>
     (\<exists>a b. a < b \<and> b < length pool \<and>
        touches_some G parts (snd (pool ! a)) \<and> touches_some G parts (snd (pool ! b)) \<and>
        w \<in> set (pair_entry G m parts
                    (fst (pool ! a), snd (pool ! a), touching_parts G (snd (pool ! a)) parts)
                    (fst (pool ! b), snd (pool ! b), touching_parts G (snd (pool ! b)) parts)))"
proof -
  let ?P = "\<lambda>(idx, cand). list_ex (\<lambda>(part_idx, part). touches G (geometry cand) (geometry part)) parts"
  let ?f = "\<lambda>(idx, cand). (idx, cand, touching_parts G cand parts)"
  let ?g = "\<lambda>x. (fst x, snd x, touching_parts G (snd x) parts)"
  have P: "?P x \<longleftrightarrow> touches_some G parts (snd x)" for x :: "nat \<times> 'a row"
    by (cases x) (force simp: list_ex_iff touches_some_def)
  have f: "?f x = ?g x" for x :: "nat \<times> 'a row"
    by (cases x) simp
  have vp: "valid_pairs G m parts pool =
      concat (map (\<lambda>(x, y). pair_entry G m parts (?f x) (?f y))
                (filter (\<lambda>(x, y). ?P x \<and> ?P y) (pairs_from pool)))"
    unfolding valid_pairs_def touching_candidates_def pairs_outer_concat pairs_from_map
      pairs_from_filter
    by (simp add: comp_def case_prod_unfold)
  have "w \<in> set (valid_pairs G m parts pool) \<longleftrightarrow>
      (\<exists>x y. (x, y) \<in> set (pairs_from pool) \<and> ?P x \<and> ?P y \<and>
         w \<in> set (pair_entry G m parts (?f x) (?f y)))"
    unfolding vp by auto
  also have "\<dots> \<longleftrightarrow> (\<exists>x y. (x, y) \<in> set (pairs_from pool) \<and>
      touches_some G parts (snd x) \<and> touches_some G parts (snd y) \<and>
      w \<in> set (pair_entry G m parts (?g x) (?g y)))"
    unfolding P f by simp
  also have "\<dots> \<longleftrightarrow> (\<exists>a b. a < b \<and> b < length pool \<and>
        touches_some G parts (snd (pool ! a)) \<and> touches_some G parts (snd (pool ! b)) \<and>
        w \<in> set (pair_entry G m parts (?g (pool ! a)) (?g (pool ! b))))"
    unfolding in_pairs_from by blast
  finally show ?thesis .
qed

lemma pair_entry_sound:
  assumes "w \<in> set (pair_entry G m parts (i1, c1, tp1) (i2, c2, tp2))"
  shows "fst w = i1" and "fst (snd w) = i2"
    and "touches G (geometry c1) (geometry c2)"
    and "m \<le> shared G (geometry c1) (geometry c2)"
  using assms by (auto simp: pair_entry_def split: if_splits)

lemma pair_entry_valid:
  assumes "distinct (index parts)"
    and "touches_some G parts c1" and "touches_some G parts c2"
  shows "w \<in> set (pair_entry G m parts (i1, c1, touching_parts G c1 parts)
                     (i2, c2, touching_parts G c2 parts)) \<longleftrightarrow>
         valid_pair G m parts c1 c2 \<and>
         w = (i1, i2, fst (pair_score G parts c1 c2), snd (pair_score G parts c1 c2))"
  using assms(2,3) by (auto simp: pair_entry_touching [OF assms(1)] valid_pair_def)

lemma valid_pair_touches_some:
  "valid_pair G m parts c1 c2 \<Longrightarrow> touches_some G parts c1 \<and> touches_some G parts c2"
  by (simp add: valid_pair_def)

lemma in_valid_pairs:
  assumes "distinct (index parts)"
  shows "w \<in> set (valid_pairs G m parts pool) \<longleftrightarrow>
     (\<exists>a b. a < b \<and> b < length pool \<and>
        valid_pair G m parts (snd (pool ! a)) (snd (pool ! b)) \<and>
        w = (fst (pool ! a), fst (pool ! b),
             fst (pair_score G parts (snd (pool ! a)) (snd (pool ! b))),
             snd (pair_score G parts (snd (pool ! a)) (snd (pool ! b)))))"
proof
  assume "w \<in> set (valid_pairs G m parts pool)"
  then obtain a b where ab: "a < b" "b < length pool"
    "touches_some G parts (snd (pool ! a))" "touches_some G parts (snd (pool ! b))"
    "w \<in> set (pair_entry G m parts
                (fst (pool ! a), snd (pool ! a), touching_parts G (snd (pool ! a)) parts)
                (fst (pool ! b), snd (pool ! b), touching_parts G (snd (pool ! b)) parts))"
    unfolding in_valid_pairs_entry by blast
  have "valid_pair G m parts (snd (pool ! a)) (snd (pool ! b)) \<and>
        w = (fst (pool ! a), fst (pool ! b),
             fst (pair_score G parts (snd (pool ! a)) (snd (pool ! b))),
             snd (pair_score G parts (snd (pool ! a)) (snd (pool ! b))))"
    using ab(5) unfolding pair_entry_valid [OF assms ab(3,4)] .
  with ab(1,2) show "\<exists>a b. a < b \<and> b < length pool \<and>
        valid_pair G m parts (snd (pool ! a)) (snd (pool ! b)) \<and>
        w = (fst (pool ! a), fst (pool ! b),
             fst (pair_score G parts (snd (pool ! a)) (snd (pool ! b))),
             snd (pair_score G parts (snd (pool ! a)) (snd (pool ! b))))"
    by blast
next
  assume "\<exists>a b. a < b \<and> b < length pool \<and>
        valid_pair G m parts (snd (pool ! a)) (snd (pool ! b)) \<and>
        w = (fst (pool ! a), fst (pool ! b),
             fst (pair_score G parts (snd (pool ! a)) (snd (pool ! b))),
             snd (pair_score G parts (snd (pool ! a)) (snd (pool ! b))))"
  then obtain a b where ab: "a < b" "b < length pool"
    "valid_pair G m parts (snd (pool ! a)) (snd (pool ! b))"
    "w = (fst (pool ! a), fst (pool ! b),
             fst (pair_score G parts (snd (pool ! a)) (snd (pool ! b))),
             snd (pair_score G parts (snd (pool ! a)) (snd (pool ! b))))"
    by blast
  have ts: "touches_some G parts (snd (pool ! a))" "touches_some G parts (snd (pool ! b))"
    using valid_pair_touches_some [OF ab(3)] by simp_all
  have "w \<in> set (pair_entry G m parts
                (fst (pool ! a), snd (pool ! a), touching_parts G (snd (pool ! a)) parts)
                (fst (pool ! b), snd (pool ! b), touching_parts G (snd (pool ! b)) parts))"
    unfolding pair_entry_valid [OF assms ts] using ab(3,4) by simp
  with ab(1,2) ts show "w \<in> set (valid_pairs G m parts pool)"
    unfolding in_valid_pairs_entry by blast
qed

lemma sorted_le_last:
  fixes xs :: "'k::linorder list"
  shows "sorted xs \<Longrightarrow> x \<in> set xs \<Longrightarrow> x \<le> last xs"
proof (induction xs)
  case Nil
  then show ?case by simp
next
  case (Cons y ys)
  show ?case
  proof (cases "ys = []")
    case True
    then show ?thesis using Cons.prems by simp
  next
    case False
    have "last ys \<in> set ys" using False by simp
    then have "y \<le> last ys" using Cons.prems(1) by simp
    moreover have "x \<in> set ys \<Longrightarrow> x \<le> last ys" using Cons.IH Cons.prems(1) by simp
    ultimately show ?thesis using Cons.prems(2) False by auto
  qed
qed

lemma sort_reverse_head:
  fixes key :: "'a \<Rightarrow> 'k::linorder"
  assumes "xs \<noteq> []"
  shows "\<exists>y ys. sort_reverse key xs = y # ys \<and> y \<in> set xs \<and> (\<forall>x \<in> set xs. key x \<le> key y)"
proof -
  let ?zs = "sort_key key (rev xs)"
  have ne: "?zs \<noteq> []" using assms by (metis set_empty set_rev set_sort)
  have s: "sorted (map key ?zs)" by (rule sorted_sort_key)
  have st: "set ?zs = set xs" by simp
  have r: "sort_reverse key xs = last ?zs # rev (butlast ?zs)"
    unfolding sort_reverse_def using ne by (metis append_butlast_last_id rev.simps(2) rev_rev_ident rev_append rev_singleton_conv append_Cons append_Nil)
  have l: "last ?zs \<in> set xs" using ne st last_in_set by blast
  have m: "key x \<le> key (last ?zs)" if "x \<in> set xs" for x
  proof -
    have "key x \<in> set (map key ?zs)" using that st by simp
    then have "key x \<le> last (map key ?zs)" using s by (rule sorted_le_last [rotated])
    then show ?thesis using ne by (simp add: last_map)
  qed
  show ?thesis using r l m by blast
qed

lemma pairs_outer_short:
  "length cs < 2 \<Longrightarrow> pairs_outer G m parts cs = []"
proof (cases cs)
  case Nil
  then show ?thesis by simp
next
  case (Cons c rest)
  assume "length cs < 2"
  then have "rest = []" using Cons by simp
  then show ?thesis using Cons by simp
qed

lemma find_two_targets_cases:
  "(find_two_targets G m parts pool = None \<and> valid_pairs G m parts pool = []) \<or>
   (\<exists>i1 i2 t s. find_two_targets G m parts pool = Some (i1, i2) \<and>
      (i1, i2, t, s) \<in> set (valid_pairs G m parts pool) \<and>
      (\<forall>w \<in> set (valid_pairs G m parts pool). pair_key w \<le> (t, s)))"
proof (cases "valid_pairs G m parts pool = []")
  case True
  then have "find_two_targets G m parts pool = None"
    by (simp add: find_two_targets_def sort_reverse_def)
  then show ?thesis using True by simp
next
  case False
  have long: "\<not> length (touching_candidates G parts pool) < 2"
    using False pairs_outer_short unfolding valid_pairs_def by blast
  obtain y ys where y: "sort_reverse pair_key (valid_pairs G m parts pool) = y # ys"
    "y \<in> set (valid_pairs G m parts pool)"
    "\<forall>x \<in> set (valid_pairs G m parts pool). pair_key x \<le> pair_key y"
    using sort_reverse_head [OF False, of pair_key] by blast
  obtain i1 i2 t s where yq: "y = (i1, i2, t, s)" by (cases y)
  have "find_two_targets G m parts pool = Some (i1, i2)"
    using long y(1) yq by (simp add: find_two_targets_def)
  moreover have "(i1, i2, t, s) \<in> set (valid_pairs G m parts pool)" using y(2) yq by simp
  moreover have "\<forall>w \<in> set (valid_pairs G m parts pool). pair_key w \<le> (t, s)"
    using y(3) yq by (simp add: pair_key_def)
  ultimately show ?thesis by blast
qed

lemma score_le_iff: "score_le s t \<longleftrightarrow> s \<le> t"
  by (auto simp: score_le_def less_eq_prod_def)

text \<open>
  C5. The pair of labels that the two-neighbour search returns names two rows of the pool,
  the first before the second, that both touch some part and touch each other along a
  boundary of at least the threshold. When the labels of the parts are pairwise distinct
  (the code reads the parts back by label, \<^verbatim>\<open>parts.loc[part_idx]\<close>, and the frames it
  builds are re-indexed), every part is touched by one of the two, and no valid pair of the
  pool has a greater score: a greater total boundary shared with the parts it touches or,
  at an equal total, a longer boundary between the two candidates. Then the search returns
  none exactly when the pool has no valid pair.
\<close>

theorem find_two_targets_spec:
  "(\<forall>i1 i2. find_two_targets G m parts pool = Some (i1, i2) \<longrightarrow>
      (\<exists>a b. a < b \<and> b < length pool \<and> fst (pool ! a) = i1 \<and> fst (pool ! b) = i2 \<and>
         touches_some G parts (snd (pool ! a)) \<and> touches_some G parts (snd (pool ! b)) \<and>
         touches G (geometry (snd (pool ! a))) (geometry (snd (pool ! b))) \<and>
         m \<le> shared G (geometry (snd (pool ! a))) (geometry (snd (pool ! b))) \<and>
         (distinct (index parts) \<longrightarrow>
            valid_pair G m parts (snd (pool ! a)) (snd (pool ! b)) \<and>
            (\<forall>a' b'. a' < b' \<and> b' < length pool \<and>
                 valid_pair G m parts (snd (pool ! a')) (snd (pool ! b')) \<longrightarrow>
                 score_le (pair_score G parts (snd (pool ! a')) (snd (pool ! b')))
                          (pair_score G parts (snd (pool ! a)) (snd (pool ! b))))))) \<and>
   (distinct (index parts) \<longrightarrow>
      (find_two_targets G m parts pool = None \<longleftrightarrow>
         \<not> (\<exists>a b. a < b \<and> b < length pool \<and>
                valid_pair G m parts (snd (pool ! a)) (snd (pool ! b)))))"
proof (intro conjI allI impI)
  fix i1 i2
  assume r: "find_two_targets G m parts pool = Some (i1, i2)"
  let ?vps = "valid_pairs G m parts pool"
  let ?row = "\<lambda>a. snd (pool ! a)"
  let ?entry = "\<lambda>a b. pair_entry G m parts
                  (fst (pool ! a), ?row a, touching_parts G (?row a) parts)
                  (fst (pool ! b), ?row b, touching_parts G (?row b) parts)"
  from find_two_targets_cases [of G m parts pool] r
  obtain t s where w: "(i1, i2, t, s) \<in> set ?vps"
    and top: "\<forall>w \<in> set ?vps. pair_key w \<le> (t, s)"
    by auto
  from w obtain a b where ab: "a < b" "b < length pool"
    and ts: "touches_some G parts (?row a)" "touches_some G parts (?row b)"
    and en: "(i1, i2, t, s) \<in> set (?entry a b)"
    unfolding in_valid_pairs_entry by blast
  have lab: "fst (pool ! a) = i1" "fst (pool ! b) = i2"
    using pair_entry_sound(1,2) [OF en] by simp_all
  have adj: "touches G (geometry (?row a)) (geometry (?row b))"
    "m \<le> shared G (geometry (?row a)) (geometry (?row b))"
    using pair_entry_sound(3,4) [OF en] by simp_all
  have best: "valid_pair G m parts (?row a) (?row b) \<and>
      (\<forall>a' b'. a' < b' \<and> b' < length pool \<and> valid_pair G m parts (?row a') (?row b') \<longrightarrow>
           score_le (pair_score G parts (?row a') (?row b')) (pair_score G parts (?row a) (?row b)))"
    if d: "distinct (index parts)"
  proof (intro conjI allI impI)
    have v: "valid_pair G m parts (?row a) (?row b) \<and>
        (i1, i2, t, s) = (fst (pool ! a), fst (pool ! b),
           fst (pair_score G parts (?row a) (?row b)), snd (pair_score G parts (?row a) (?row b)))"
      using en unfolding pair_entry_valid [OF d ts] .
    then show "valid_pair G m parts (?row a) (?row b)" by simp
    have sc: "pair_score G parts (?row a) (?row b) = (t, s)" using v by simp
    fix a' b'
    assume h: "a' < b' \<and> b' < length pool \<and> valid_pair G m parts (?row a') (?row b')"
    let ?w = "(fst (pool ! a'), fst (pool ! b'),
               fst (pair_score G parts (?row a') (?row b')),
               snd (pair_score G parts (?row a') (?row b')))"
    have "?w \<in> set ?vps" unfolding in_valid_pairs [OF d] using h by blast
    then have "pair_key ?w \<le> (t, s)" using top by blast
    then have "pair_score G parts (?row a') (?row b') \<le> (t, s)" by (simp add: pair_key_def)
    then show "score_le (pair_score G parts (?row a') (?row b')) (pair_score G parts (?row a) (?row b))"
      unfolding score_le_iff sc .
  qed
  show "\<exists>a b. a < b \<and> b < length pool \<and> fst (pool ! a) = i1 \<and> fst (pool ! b) = i2 \<and>
         touches_some G parts (snd (pool ! a)) \<and> touches_some G parts (snd (pool ! b)) \<and>
         touches G (geometry (snd (pool ! a))) (geometry (snd (pool ! b))) \<and>
         m \<le> shared G (geometry (snd (pool ! a))) (geometry (snd (pool ! b))) \<and>
         (distinct (index parts) \<longrightarrow>
            valid_pair G m parts (snd (pool ! a)) (snd (pool ! b)) \<and>
            (\<forall>a' b'. a' < b' \<and> b' < length pool \<and>
                 valid_pair G m parts (snd (pool ! a')) (snd (pool ! b')) \<longrightarrow>
                 score_le (pair_score G parts (snd (pool ! a')) (snd (pool ! b')))
                          (pair_score G parts (snd (pool ! a)) (snd (pool ! b)))))"
    using ab lab ts adj best by blast
next
  assume d: "distinct (index parts)"
  let ?vps = "valid_pairs G m parts pool"
  have e: "?vps = [] \<longleftrightarrow>
      \<not> (\<exists>a b. a < b \<and> b < length pool \<and> valid_pair G m parts (snd (pool ! a)) (snd (pool ! b)))"
  proof -
    have "?vps = [] \<longleftrightarrow> (\<forall>w. w \<notin> set ?vps)" by (cases ?vps) auto
    also have "\<dots> \<longleftrightarrow>
        \<not> (\<exists>a b. a < b \<and> b < length pool \<and> valid_pair G m parts (snd (pool ! a)) (snd (pool ! b)))"
      unfolding in_valid_pairs [OF d] by blast
    finally show ?thesis .
  qed
  have "find_two_targets G m parts pool = None \<longleftrightarrow> ?vps = []"
    using find_two_targets_cases [of G m parts pool] by auto
  then show "find_two_targets G m parts pool = None \<longleftrightarrow>
      \<not> (\<exists>a b. a < b \<and> b < length pool \<and> valid_pair G m parts (snd (pool ! a)) (snd (pool ! b)))"
    using e by simp
qed

text \<open>
  The theorem at two parts that each touch their own neighbour, the two neighbours sharing
  a boundary of length 8, at the default threshold 5: the search returns exactly that pair,
  which is valid, and no valid pair of the pool has a greater score.
\<close>

theorem find_two_targets_spec_witness:
  "distinct (index two_hop_parts) \<and>
   find_two_targets two_hop_ops 5 two_hop_parts two_hop_pool = Some (3, 5) \<and>
   (\<exists>a b. a < b \<and> b < length two_hop_pool \<and>
      fst (two_hop_pool ! a) = 3 \<and> fst (two_hop_pool ! b) = 5 \<and>
      valid_pair two_hop_ops 5 two_hop_parts (snd (two_hop_pool ! a)) (snd (two_hop_pool ! b)) \<and>
      (\<forall>a' b'. a' < b' \<and> b' < length two_hop_pool \<and>
           valid_pair two_hop_ops 5 two_hop_parts (snd (two_hop_pool ! a')) (snd (two_hop_pool ! b')) \<longrightarrow>
           score_le (pair_score two_hop_ops two_hop_parts (snd (two_hop_pool ! a')) (snd (two_hop_pool ! b')))
                    (pair_score two_hop_ops two_hop_parts (snd (two_hop_pool ! a)) (snd (two_hop_pool ! b)))))"
proof -
  have d: "distinct (index two_hop_parts)" by (simp add: index_def two_hop_parts_def)
  have r: "find_two_targets two_hop_ops 5 two_hop_parts two_hop_pool = Some (3, 5)"
    by (simp add: find_two_targets_def valid_pairs_def touching_candidates_def
        touching_parts_def shared_with_parts_def sort_reverse_def pair_key_def loc_def index_def
        two_hop_ops_def two_hop_parts_def two_hop_pool_def table_ops_def mk_row_def
        insert_commute)
  from find_two_targets_spec [of two_hop_ops 5 two_hop_parts two_hop_pool] r d
  show ?thesis by blast
qed

end
